theory Spec2Isabelle
  imports Main "HOL-Library.AList" "HOL-Library.Multiset"
begin

section \<open>The manifest orchestrator (class Manifest)\<close>

subsection \<open>Documents, configuration and the code host\<close>

text \<open>
  The manifest document is declared as \<^verbatim>\<open>Record<string, string>\<close>, but \<^verbatim>\<open>validate()\<close>
  inspects the run-time type of every value, so a value is an arbitrary JSON value
  (numbers are kept as integers: only their type and whether they are zero is read).
  The document itself is an object: a list of entries with distinct keys.
\<close>

datatype json =
    JNull
  | JBool bool
  | JNum int
  | JStr string
  | JArr "json list"
  | JObj "(string \<times> json) list"

type_synonym ManifestJson = "(string \<times> json) list"

type_synonym VersionsMap = "(string \<times> json) list"

text \<open>\<^verbatim>\<open>typeof v === 'string'\<close>\<close>

fun is_string :: "json \<Rightarrow> bool" where
  "is_string (JStr s) = True"
| "is_string v = False"

text \<open>JavaScript truthiness of a value (\<^verbatim>\<open>!v\<close> is its negation).\<close>

fun truthy :: "json \<Rightarrow> bool" where
  "truthy JNull = False"
| "truthy (JBool b) = b"
| "truthy (JNum n) = (n \<noteq> 0)"
| "truthy (JStr s) = (s \<noteq> [])"
| "truthy (JArr xs) = True"
| "truthy (JObj kvs) = True"

text \<open>\<^verbatim>\<open>!lastVersion\<close> for an optional value: undefined is falsy.\<close>

definition falsy_opt :: "json option \<Rightarrow> bool" where
  "falsy_opt v = (case v of None \<Rightarrow> True | Some j \<Rightarrow> \<not> truthy j)"

text \<open>
  What reading a JSON file from the code host gives: the request fails, the content is
  not JSON, or the parsed content.
\<close>

datatype 'a fetched = Unavailable | Malformed | Content 'a

datatype error = RequestError | SyntaxError

record ReleaserPackageConfig =
  pc_release_type :: "string option"
  pc_package_name :: "string option"
  pc_release_as :: "string option"
  pc_release_draft :: "bool option"

text \<open>
  The configuration document. A missing \<^verbatim>\<open>packages\<close> key is the empty list
  (\<^verbatim>\<open>obj.packages ?? {}\<close>). The changelog and bump-minor settings are handed to the
  releasers unchanged and are left out.
\<close>

record ConfigJson =
  packages :: "(string \<times> ReleaserPackageConfig) list"
  release_type :: "string option"
  release_as :: "string option"
  release_draft :: "bool option"
  bootstrap_sha :: "string option"

record Package =
  path :: string
  releaseType :: string
  packageName :: "string option"
  releaseAs :: "string option"
  releaseDraft :: bool

record Config =
  parsedPackages :: "Package list"
  config_json :: ConfigJson

record Commit =
  c_sha :: string
  c_message :: string
  c_files :: "string list"

record ReleaserOptions =
  ro_monorepoTags :: bool
  ro_draft :: bool
  ro_path :: string
  ro_releaseType :: string
  ro_packageName :: "string option"
  ro_releaseAs :: "string option"

record PackageReleaseData =
  prd_package :: Package
  releaserOptions :: ReleaserOptions
  commits :: "Commit list"
  lastVersion :: "json option"

record MergedPR =
  pr_sha :: string
  pr_number :: nat
  pr_labels :: "string list"
  pr_files :: "string list"

record ApiError =
  e_code :: string
  e_field :: string

record RequestFailure =
  err_status :: int
  err_errors :: "ApiError list option"
  err_message :: string

record ReleaseCreateResponse =
  html_url :: string
  tag_name :: string

datatype create_result = Throws RequestFailure | Returns "ReleaseCreateResponse option"

record GitHubReleaseResponse =
  r_release :: ReleaseCreateResponse
  r_version :: json
  r_sha :: string
  r_number :: nat

datatype Update =
    FileUpdate string
  | ReleasePleaseManifest string VersionsMap ManifestJson

record OpenPROptions =
  o_version :: string
  o_changelogEntry :: string
  o_updates :: "Update list"

record PackageWithPRData =
  pw_name :: string
  pw_openPROptions :: OpenPROptions

text \<open>
  The calls that change the code host, in the order they are made. Reads and
  \<^verbatim>\<open>checkpoint\<close> logging change nothing there and are not recorded.
\<close>

datatype gh_call =
    OpenPR string string string "Update list" "string list"
  | AddLabels "string list" nat
  | RemoveLabels "string list" nat
  | CommentOnIssue string nat
  | CreateRelease string json nat

text \<open>
  The code host and the collaborators outside this class, as one run sees them. The
  documents do not change during a run, so the caches \<^verbatim>\<open>headManifest\<close> and
  \<^verbatim>\<open>configFile\<close> are not modelled: reading again gives the same value. Reading a
  document and \<^verbatim>\<open>createRelease\<close> can fail; the other calls are taken to return.
  \<^item> \<open>config_file\<close>, \<open>manifest_file\<close>: the two documents; \<open>manifest_file None\<close> is the
    tip of the default branch, \<open>manifest_file (Some sha)\<close> the document at that commit;
  \<^item> \<open>branchName\<close>: \<^verbatim>\<open>BranchName.ofTargetBranch\<close> of the default branch;
  \<^item> \<open>cs_split\<close>: \<^verbatim>\<open>CommitSplit.split\<close>, the commits per package path;
  \<^item> \<open>releaser_*\<close>: the release strategy created by \<^verbatim>\<open>factory.releasePRClass\<close>, and
    \<^verbatim>\<open>createRelease\<close> of the \<^verbatim>\<open>GitHubRelease\<close> built on it;
  \<^item> \<open>DEFAULT_LABELS\<close>, \<open>GITHUB_RELEASE_LABEL\<close>, \<open>RELEASE_PLEASE\<close>: the constants
    imported from \<^verbatim>\<open>./constants\<close> and \<^verbatim>\<open>./github-release\<close>.
\<close>

record env =
  config_file :: "ConfigJson fetched"
  manifest_file :: "string option \<Rightarrow> ManifestJson fetched"
  manifestFileName :: string
  branchName :: string
  gh_lastMergedPRByHeadBranch :: "string \<Rightarrow> MergedPR option"
  gh_commitsSinceSha :: "string option \<Rightarrow> Commit list"
  gh_openPR :: "nat option"
  cs_split :: "string list \<Rightarrow> Commit list \<Rightarrow> string \<Rightarrow> Commit list option"
  releaser_getPackageName :: "ReleaserOptions \<Rightarrow> string"
  releaser_packageName :: "ReleaserOptions \<Rightarrow> string"
  releaser_getOpenPROptions ::
    "ReleaserOptions \<Rightarrow> Commit list \<Rightarrow> (json \<times> string) option \<Rightarrow> OpenPROptions option"
  releaser_createRelease :: "ReleaserOptions \<Rightarrow> json \<Rightarrow> MergedPR \<Rightarrow> create_result"
  DEFAULT_LABELS :: "string list"
  GITHUB_RELEASE_LABEL :: string
  RELEASE_PLEASE :: string

subsection \<open>Reading the documents\<close>

text \<open>
  \<^verbatim>\<open>getFileJson(fileName)\<close>: a failed request is thrown again; \<^verbatim>\<open>JSON.parse\<close> is
  outside the \<^verbatim>\<open>try\<close> and throws a SyntaxError.
\<close>

definition getFileJson :: "'a fetched \<Rightarrow> error + 'a" where
  "getFileJson f =
     (case f of
        Unavailable \<Rightarrow> Inl RequestError
      | Malformed \<Rightarrow> Inl SyntaxError
      | Content j \<Rightarrow> Inr j)"

text \<open>\<^verbatim>\<open>getFileJson(fileName, sha)\<close>: a failed request gives undefined.\<close>

definition getFileJson_sha :: "'a fetched \<Rightarrow> error + 'a option" where
  "getFileJson_sha f =
     (case f of
        Unavailable \<Rightarrow> Inr None
      | Malformed \<Rightarrow> Inl SyntaxError
      | Content j \<Rightarrow> Inr (Some j))"

definition getManifestJson :: "env \<Rightarrow> error + ManifestJson" where
  "getManifestJson e = getFileJson (manifest_file e None)"

definition getManifestJson_sha :: "env \<Rightarrow> string \<Rightarrow> error + ManifestJson option" where
  "getManifestJson_sha e sha = getFileJson_sha (manifest_file e (Some sha))"

text \<open>
  \<^verbatim>\<open>getManifestVersions(sha?)\<close>: the versions and where they were read
  (\<^verbatim>\<open>atSha\<close>). An empty string is falsy, like undefined.
\<close>

definition getManifestVersions :: "env \<Rightarrow> string option \<Rightarrow> error + (VersionsMap \<times> string)" where
  "getManifestVersions e sha =
     (case (if sha = Some [] then None else sha) of
        None \<Rightarrow>
          (case getManifestJson e of
             Inl x \<Rightarrow> Inl x
           | Inr manifestJson \<Rightarrow> Inr (manifestJson, ''tip''))
      | Some s \<Rightarrow>
          (case getManifestJson_sha e s of
             Inl x \<Rightarrow> Inl x
           | Inr None \<Rightarrow>
               (case getManifestJson e of
                  Inl x \<Rightarrow> Inl x
                | Inr manifestJson \<Rightarrow> Inr (manifestJson, ''tip''))
           | Inr (Some maybeManifestJson) \<Rightarrow> Inr (maybeManifestJson, s)))"

text \<open>\<^verbatim>\<open>getManifestVersions(false, newPaths)\<close>: the versions at the tip.\<close>

definition getManifestVersions_false :: "env \<Rightarrow> string list \<Rightarrow> error + VersionsMap" where
  "getManifestVersions_false e newPaths =
     (case getManifestJson e of
        Inl x \<Rightarrow> Inl x
      | Inr manifestJson \<Rightarrow> Inr manifestJson)"

definition resolveReleaseAs :: "string option \<Rightarrow> string option \<Rightarrow> string option" where
  "resolveReleaseAs pkgRA defaultRA =
     (let r1 = (case defaultRA of None \<Rightarrow> None | Some d \<Rightarrow> if d = [] then None else Some d);
          r2 = (case pkgRA of None \<Rightarrow> r1 | Some p \<Rightarrow> Some p)
      in case r2 of None \<Rightarrow> None | Some r \<Rightarrow> if r = [] then None else Some r)"

definition first_defined :: "'a option \<Rightarrow> 'a option \<Rightarrow> 'a option" where
  "first_defined a b = (case a of None \<Rightarrow> b | Some x \<Rightarrow> Some x)"

definition parsePackage :: "ConfigJson \<Rightarrow> string \<times> ReleaserPackageConfig \<Rightarrow> Package" where
  "parsePackage config kv =
     (case kv of (pkgPath, pkgCfg) \<Rightarrow>
        \<lparr> path = pkgPath,
          releaseType =
            (case first_defined (pc_release_type pkgCfg) (release_type config) of
               None \<Rightarrow> ''node'' | Some t \<Rightarrow> t),
          packageName = pc_package_name pkgCfg,
          releaseAs = resolveReleaseAs (pc_release_as pkgCfg) (release_as config),
          releaseDraft =
            (case first_defined (pc_release_draft pkgCfg) (release_draft config) of
               None \<Rightarrow> False | Some d \<Rightarrow> d) \<rparr>)"

text \<open>
  \<^verbatim>\<open>getConfigJson()\<close>. \<^verbatim>\<open>for (const pkgPath in configJson.packages)\<close> visits the
  packages in the order of the document; a path that is an integer-like key, which
  JavaScript enumerates before the others, is not distinguished here.
\<close>

definition getConfigJson :: "env \<Rightarrow> error + Config" where
  "getConfigJson e =
     (case getFileJson (config_file e) of
        Inl x \<Rightarrow> Inl x
      | Inr config \<Rightarrow>
          Inr \<lparr> parsedPackages = map (parsePackage config) (packages config),
                config_json = config \<rparr>)"

subsection \<open>The release candidate resolver\<close>

text \<open>\<^verbatim>\<open>{monorepoTags: true, draft: releaseDraft, ...rest}\<close>\<close>

definition releaserOptions_of :: "Package \<Rightarrow> ReleaserOptions" where
  "releaserOptions_of pkg =
     \<lparr> ro_monorepoTags = True,
       ro_draft = releaseDraft pkg,
       ro_path = path pkg,
       ro_releaseType = releaseType pkg,
       ro_packageName = packageName pkg,
       ro_releaseAs = releaseAs pkg \<rparr>"

text \<open>
  The main pass of \<^verbatim>\<open>getPackagesToRelease\<close>. The accumulator is the object
  \<^verbatim>\<open>packagesToRelease\<close> (keyed by path, in insertion order) and the list
  \<^verbatim>\<open>missingVersionPaths\<close>.
\<close>

fun getPackagesToRelease_loop ::
  "VersionsMap \<Rightarrow> (string \<Rightarrow> Commit list option) \<Rightarrow> Package list \<Rightarrow>
   (string \<times> PackageReleaseData) list \<times> string list \<Rightarrow>
   (string \<times> PackageReleaseData) list \<times> string list" where
  "getPackagesToRelease_loop manifestVersions commitsPerPath [] acc = acc"
| "getPackagesToRelease_loop manifestVersions commitsPerPath (pkg # pkgs) (packagesToRelease, missingVersionPaths) =
     (case commitsPerPath (path pkg) of
        None \<Rightarrow>
          getPackagesToRelease_loop manifestVersions commitsPerPath pkgs
            (packagesToRelease, missingVersionPaths)
      | Some cs \<Rightarrow>
          if cs = [] then
            getPackagesToRelease_loop manifestVersions commitsPerPath pkgs
              (packagesToRelease, missingVersionPaths)
          else
            getPackagesToRelease_loop manifestVersions commitsPerPath pkgs
              (AList.update (path pkg)
                 \<lparr> prd_package = pkg,
                   releaserOptions = releaserOptions_of pkg,
                   commits = cs,
                   lastVersion = map_of manifestVersions (path pkg) \<rparr>
                 packagesToRelease,
               if falsy_opt (map_of manifestVersions (path pkg))
               then missingVersionPaths @ [path pkg]
               else missingVersionPaths))"

text \<open>The second pass: every missing path takes the version of the manifest at the tip.\<close>

fun getPackagesToRelease_missing ::
  "VersionsMap \<Rightarrow> string list \<Rightarrow> (string \<times> PackageReleaseData) list \<Rightarrow>
   (string \<times> PackageReleaseData) list" where
  "getPackagesToRelease_missing headManifestVersions [] packagesToRelease = packagesToRelease"
| "getPackagesToRelease_missing headManifestVersions (missingVersionPath # ps) packagesToRelease =
     getPackagesToRelease_missing headManifestVersions ps
       (AList.map_entry missingVersionPath
          (\<lambda>d. d\<lparr>lastVersion := map_of headManifestVersions missingVersionPath\<rparr>)
          packagesToRelease)"

definition getPackagesToRelease ::
  "env \<Rightarrow> Commit list \<Rightarrow> string option \<Rightarrow> error + PackageReleaseData list" where
  "getPackagesToRelease e cs sha =
     (case getConfigJson e of
        Inl x \<Rightarrow> Inl x
      | Inr config \<Rightarrow>
          (case getManifestVersions e sha of
             Inl x \<Rightarrow> Inl x
           | Inr (manifestVersions, atSha) \<Rightarrow>
               (case getPackagesToRelease_loop manifestVersions
                       (cs_split e (map path (parsedPackages config)) cs)
                       (parsedPackages config) ([], []) of
                  (packagesToRelease, missingVersionPaths) \<Rightarrow>
                    if missingVersionPaths \<noteq> [] then
                      (case getManifestVersions_false e missingVersionPaths of
                         Inl x \<Rightarrow> Inl x
                       | Inr headManifestVersions \<Rightarrow>
                           Inr (map snd
                             (getPackagesToRelease_missing headManifestVersions
                                missingVersionPaths packagesToRelease)))
                    else Inr (map snd packagesToRelease))))"

subsection \<open>Validation\<close>

text \<open>
  \<^verbatim>\<open>validateJsonFile\<close>: every exception is caught and makes the file invalid. The test
  \<^verbatim>\<open>obj.constructor.name === 'Object'\<close> holds for every document of the types above.
\<close>

definition validateJsonFile :: "error + 'a \<Rightarrow> 'a option" where
  "validateJsonFile r = (case r of Inl x \<Rightarrow> None | Inr obj \<Rightarrow> Some obj)"

text \<open>The loop over the manifest's values, left at the first value that is no string.\<close>

fun only_strings :: "(string \<times> json) list \<Rightarrow> bool" where
  "only_strings [] = True"
| "only_strings ((k, version) # kvs) = (if \<not> is_string version then False else only_strings kvs)"

definition validate :: "env \<Rightarrow> bool" where
  "validate e =
     (let validConfig =
            (case validateJsonFile (getConfigJson e) of
               None \<Rightarrow> False
             | Some obj \<Rightarrow> packages (config_json obj) \<noteq> []);
          validManifest =
            (case validateJsonFile (getManifestJson e) of
               None \<Rightarrow> False
             | Some obj \<Rightarrow> only_strings obj)
      in validConfig \<and> validManifest)"

subsection \<open>The pull request flow\<close>

text \<open>
  \<^verbatim>\<open>runReleasers\<close>: the accumulator is \<^verbatim>\<open>manifestUpdates\<close> and \<^verbatim>\<open>openPRPackages\<close>.
  The last release handed to the releaser is built from \<^verbatim>\<open>lastVersion\<close> and the sha.
\<close>

fun runReleasers ::
  "env \<Rightarrow> string option \<Rightarrow> PackageReleaseData list \<Rightarrow>
   VersionsMap \<times> PackageWithPRData list \<Rightarrow> VersionsMap \<times> PackageWithPRData list" where
  "runReleasers e sha [] acc = acc"
| "runReleasers e sha (pkg # pkgs) (manifestUpdates, openPRPackages) =
     (case releaser_getOpenPROptions e (releaserOptions pkg) (commits pkg)
             (case lastVersion pkg of
                None \<Rightarrow> None
              | Some v \<Rightarrow>
                  if truthy v
                  then Some (v, case sha of None \<Rightarrow> ''beginning of time'' | Some s \<Rightarrow> s)
                  else None) of
        None \<Rightarrow> runReleasers e sha pkgs (manifestUpdates, openPRPackages)
      | Some openPROptions \<Rightarrow>
          runReleasers e sha pkgs
            (AList.update (path (prd_package pkg)) (JStr (o_version openPROptions)) manifestUpdates,
             openPRPackages @
               [\<lparr> pw_name = releaser_packageName e (releaserOptions pkg),
                  pw_openPROptions = openPROptions \<rparr>]))"

fun buildManifestPR_loop ::
  "PackageWithPRData list \<Rightarrow> string \<times> Update list \<Rightarrow> string \<times> Update list" where
  "buildManifestPR_loop [] acc = acc"
| "buildManifestPR_loop (openPRPackage # ps) (body, updates) =
     buildManifestPR_loop ps
       (body @ [CHR 0x0A, CHR 0x0A] @ ''---'' @ [CHR 0x0A] @
          pw_name openPRPackage @ '': '' @ o_version (pw_openPROptions openPRPackage) @ [CHR 0x0A] @
          o_changelogEntry (pw_openPROptions openPRPackage),
        updates @ o_updates (pw_openPROptions openPRPackage))"

definition buildManifestPR ::
  "env \<Rightarrow> VersionsMap \<Rightarrow> PackageWithPRData list \<Rightarrow> error + (string \<times> Update list)" where
  "buildManifestPR e manifestUpdates openPRPackages =
     (case buildManifestPR_loop openPRPackages
             ('':robot: I have created a release '' @ [CHR 0x5C] @ ''*beep'' @ [CHR 0x5C] @
              ''* '' @ [CHR 0x5C] @ ''*boop'' @ [CHR 0x5C] @ ''*'', []) of
        (body, updates) \<Rightarrow>
          (case getManifestJson e of
             Inl x \<Rightarrow> Inl x
           | Inr manifestContents \<Rightarrow>
               Inr (body @ [CHR 0x0A, CHR 0x0A] @
                      ''This PR was generated with [Release Please]'' @
                      ''(https://github.com/googleapis/'' @ RELEASE_PLEASE e @
                      ''). See [documentation]'' @
                      ''(https://github.com/googleapis/'' @ RELEASE_PLEASE e @ ''#'' @
                      RELEASE_PLEASE e @ '').'',
                    updates @
                      [ReleasePleaseManifest (manifestFileName e) manifestUpdates
                         manifestContents])))"

definition commitsSinceSha :: "env \<Rightarrow> string option \<Rightarrow> error + Commit list" where
  "commitsSinceSha e sha =
     (case sha of
        Some fromSha \<Rightarrow> Inr (gh_commitsSinceSha e (Some fromSha))
      | None \<Rightarrow>
          (case getConfigJson e of
             Inl x \<Rightarrow> Inl x
           | Inr config \<Rightarrow> Inr (gh_commitsSinceSha e (bootstrap_sha (config_json config)))))"

text \<open>
  \<^verbatim>\<open>pullRequest()\<close>: the calls made on the code host, and the result (an exception, or
  the number of the pull request, or undefined).
\<close>

definition pullRequest :: "env \<Rightarrow> gh_call list \<times> (error + nat option)" where
  "pullRequest e =
     (if \<not> validate e then ([], Inr None)
      else
        (let sha = map_option pr_sha (gh_lastMergedPRByHeadBranch e (branchName e)) in
         case commitsSinceSha e sha of
           Inl x \<Rightarrow> ([], Inl x)
         | Inr cs \<Rightarrow>
             (case getPackagesToRelease e cs sha of
                Inl x \<Rightarrow> ([], Inl x)
              | Inr pkgs \<Rightarrow>
                  (case runReleasers e sha pkgs ([], []) of
                     (manifestUpdates, openPRPackages) \<Rightarrow>
                       if openPRPackages = [] then ([], Inr None)
                       else
                         (case buildManifestPR e manifestUpdates openPRPackages of
                            Inl x \<Rightarrow> ([], Inl x)
                          | Inr (body, updates) \<Rightarrow>
                              (case gh_openPR e of
                                 None \<Rightarrow>
                                   ([OpenPR (branchName e) ''chore: release'' body updates
                                       (DEFAULT_LABELS e)],
                                    Inr None)
                               | Some pr \<Rightarrow>
                                   ([OpenPR (branchName e) ''chore: release'' body updates
                                       (DEFAULT_LABELS e)] @
                                    (if pr \<noteq> 0 then [AddLabels (DEFAULT_LABELS e) pr] else []),
                                    Inr (Some pr))))))))"

subsection \<open>The release creation flow\<close>

text \<open>
  The state of the loop of \<^verbatim>\<open>githubRelease()\<close>: the object \<^verbatim>\<open>releases\<close> (keyed by
  path), the flag \<^verbatim>\<open>allReleasesCreated\<close>, and the calls made so far.
\<close>

record release_state =
  releases :: "(string \<times> GitHubReleaseResponse option) list"
  allReleasesCreated :: bool
  calls :: "gh_call list"

text \<open>\<^verbatim>\<open>err.status === 422 && err.errors?.length\<close>\<close>

definition unprocessable_with_errors :: "RequestFailure \<Rightarrow> bool" where
  "unprocessable_with_errors err =
     (err_status err = 422 \<and> (case err_errors err of None \<Rightarrow> False | Some es \<Rightarrow> es \<noteq> []))"

text \<open>
  \<^verbatim>\<open>err.errors[0].code === 'already_exists' && err.errors[0].field === 'tag_name'\<close>,
  read where the test above holds.
\<close>

definition already_exists :: "RequestFailure \<Rightarrow> bool" where
  "already_exists err =
     (case err_errors err of
        Some (e0 # es) \<Rightarrow> e_code e0 = ''already_exists'' \<and> e_field e0 = ''tag_name''
      | _ \<Rightarrow> False)"

text \<open>
  One turn of the loop. In the branch for status 422 the test \<open>already_exists\<close> only
  chooses whether a checkpoint is logged, so both of its outcomes leave the state as it is.
\<close>

definition githubRelease_step ::
  "env \<Rightarrow> MergedPR \<Rightarrow> PackageReleaseData \<Rightarrow> release_state \<Rightarrow> release_state" where
  "githubRelease_step e lastMergedPR pkg st =
     (let pkgName = releaser_getPackageName e (releaserOptions pkg);
          pkgPath = path (prd_package pkg)
      in case lastVersion pkg of
           None \<Rightarrow> st\<lparr>releases := AList.update pkgPath None (releases st)\<rparr>
         | Some v \<Rightarrow>
             if \<not> truthy v then st\<lparr>releases := AList.update pkgPath None (releases st)\<rparr>
             else
               (let st1 = st\<lparr>calls := calls st @ [CreateRelease pkgPath v (pr_number lastMergedPR)]\<rparr>
                in case releaser_createRelease e (releaserOptions pkg) v lastMergedPR of
                     Throws err \<Rightarrow>
                       (let st2 =
                              (if unprocessable_with_errors err then
                                 (if already_exists err then st1 else st1)
                               else
                                 st1\<lparr>allReleasesCreated := False,
                                     calls := calls st1 @
                                       [CommentOnIssue
                                          ('':robot: Failed to create release for '' @ pkgName @
                                           '' :cloud:'')
                                          (pr_number lastMergedPR)]\<rparr>)
                        in st2\<lparr>releases := AList.update pkgPath None (releases st2)\<rparr>)
                   | Returns None \<Rightarrow> st1
                   | Returns (Some release) \<Rightarrow>
                       st1\<lparr>calls := calls st1 @
                             [CommentOnIssue
                                ('':robot: Release for '' @ pkgName @ '' is at '' @
                                 html_url release @ '' :sunflower:'')
                                (pr_number lastMergedPR)],
                           releases := AList.update pkgPath
                             (Some \<lparr> r_release = release, r_version = v,
                                     r_sha = pr_sha lastMergedPR,
                                     r_number = pr_number lastMergedPR \<rparr>)
                             (releases st1)\<rparr>))"

fun githubRelease_loop ::
  "env \<Rightarrow> MergedPR \<Rightarrow> PackageReleaseData list \<Rightarrow> release_state \<Rightarrow> release_state" where
  "githubRelease_loop e lastMergedPR [] st = st"
| "githubRelease_loop e lastMergedPR (pkg # pkgs) st =
     githubRelease_loop e lastMergedPR pkgs (githubRelease_step e lastMergedPR pkg st)"

text \<open>
  The loop and the labelling after it, for the packages found: the flag starts as
  \<^verbatim>\<open>!!packages.length\<close>.
\<close>

definition githubRelease_create ::
  "env \<Rightarrow> MergedPR \<Rightarrow> PackageReleaseData list \<Rightarrow>
   gh_call list \<times> (string \<times> GitHubReleaseResponse option) list" where
  "githubRelease_create e lastMergedPR pkgs =
     (let st = githubRelease_loop e lastMergedPR pkgs
                 \<lparr> releases = [], allReleasesCreated = (pkgs \<noteq> []), calls = [] \<rparr>
      in (calls st @
            (if allReleasesCreated st
             then [AddLabels [GITHUB_RELEASE_LABEL e] (pr_number lastMergedPR),
                   RemoveLabels (DEFAULT_LABELS e) (pr_number lastMergedPR)]
             else []),
          releases st))"

text \<open>\<^verbatim>\<open>lastMergedPR.labels.includes(DEFAULT_LABELS[0])\<close>\<close>

definition has_pending_label :: "env \<Rightarrow> MergedPR \<Rightarrow> bool" where
  "has_pending_label e lastMergedPR =
     (case DEFAULT_LABELS e of [] \<Rightarrow> False | l # ls \<Rightarrow> l \<in> set (pr_labels lastMergedPR))"

text \<open>
  \<^verbatim>\<open>githubRelease()\<close>: the calls made on the code host, and the result (an exception, or
  the releases by path, or undefined).
\<close>

definition githubRelease ::
  "env \<Rightarrow> gh_call list \<times> (error + (string \<times> GitHubReleaseResponse option) list option)" where
  "githubRelease e =
     (if \<not> validate e then ([], Inr None)
      else
        (case gh_lastMergedPRByHeadBranch e (branchName e) of
           None \<Rightarrow> ([], Inr None)
         | Some lastMergedPR \<Rightarrow>
             if GITHUB_RELEASE_LABEL e \<in> set (pr_labels lastMergedPR) then ([], Inr None)
             else if \<not> has_pending_label e lastMergedPR then ([], Inr None)
             else
               (case getPackagesToRelease e
                       [\<lparr> c_sha = pr_sha lastMergedPR, c_message = [],
                           c_files = pr_files lastMergedPR \<rparr>]
                       (Some (pr_sha lastMergedPR)) of
                  Inl x \<Rightarrow> ([], Inl x)
                | Inr pkgs \<Rightarrow>
                    (case githubRelease_create e lastMergedPR pkgs of
                       (cs, rs) \<Rightarrow> (cs, Inr (Some rs))))))"

section \<open>The workspace plugin (class NodeWorkspaceDependencyUpdates)\<close>

subsection \<open>Packages and the package graph\<close>

text \<open>
  The descriptor of a package (\<^verbatim>\<open>PackageJson\<close> of the typings): name, version and the
  dependency map. Its other keys are carried along unchanged and are left out.
\<close>

record PackageJson =
  pj_name :: string
  pj_version :: string
  pj_dependencies :: "(string \<times> string) list"

type_synonym PathPkgJson = "(string \<times> PackageJson) list"

text \<open>The class \<^verbatim>\<open>Package\<close> of the typings: a descriptor and its location.\<close>

record LernaPackage =
  name :: string
  version :: string
  location :: string
  dependencies :: "(string \<times> string) list"

definition toJSON :: "LernaPackage \<Rightarrow> PackageJson" where
  "toJSON p = \<lparr> pj_name = name p, pj_version = version p, pj_dependencies = dependencies p \<rparr>"

text \<open>The resolved reference of a dependency (\<^verbatim>\<open>npa.Result\<close>): the fields the plugin reads.\<close>

record Resolved =
  r_name :: string
  r_type :: string

text \<open>
  Modelled from the spec: the package graph is built by lerna's \<^verbatim>\<open>PackageGraph\<close>, which
  is not part of the repository. A node is a package with its local dependency edges
  (name of the dependency \<open>\<rightarrow>\<close> resolved reference); the graph that lerna builds over
  \<^verbatim>\<open>allPkgs\<close> is the input of the propagation, one node per package, in that order.
\<close>

record PackageGraphNode =
  pkg :: LernaPackage
  localDependencies :: "(string \<times> Resolved) list"

type_synonym PackageGraph = "PackageGraphNode list"

definition node_name :: "PackageGraphNode \<Rightarrow> string" where
  "node_name node = name (pkg node)"

definition node_version :: "PackageGraphNode \<Rightarrow> string" where
  "node_version node = version (pkg node)"

definition node_location :: "PackageGraphNode \<Rightarrow> string" where
  "node_location node = location (pkg node)"

text \<open>\<^verbatim>\<open>packageGraph.get(name)\<close>\<close>

definition graph_get :: "PackageGraph \<Rightarrow> string \<Rightarrow> PackageGraphNode option" where
  "graph_get g n = find (\<lambda>node. node_name node = n) g"

text \<open>\<^verbatim>\<open>rpUpdatedPkgs.has(location)\<close>\<close>

definition has :: "('k \<times> 'v) list \<Rightarrow> 'k \<Rightarrow> bool" where
  "has m k = (k \<in> set (map fst m))"

text \<open>\<^verbatim>\<open>new Map(entries)\<close>: a later entry with the same key replaces the value.\<close>

definition Map_new :: "('k \<times> 'v) list \<Rightarrow> ('k \<times> 'v) list" where
  "Map_new entries = foldl (\<lambda>m kv. AList.update (fst kv) (snd kv) m) [] entries"

subsection \<open>The parts of lerna and semver that the plugin calls\<close>

text \<open>
  Modelled from the spec: \<^verbatim>\<open>collectPackages\<close> of \<^verbatim>\<open>@lerna/collect-updates\<close>. The
  candidate set is the directly updated packages together with all of their transitive
  dependents, found by following the edges in the "is depended on by" direction; a package
  with no path to an updated package is not in it. The result keeps the order of the graph.
\<close>

text \<open>
  Modelled from the spec: the package has a local dependency on one of the named packages.
\<close>

definition depends_on_one_of :: "string list \<Rightarrow> PackageGraphNode \<Rightarrow> bool" where
  "depends_on_one_of names node = list_ex (\<lambda>d. d \<in> set names) (map fst (localDependencies node))"

text \<open>
  Modelled from the spec: one round of following the edges in the "is depended on by"
  direction, the names of the packages that depend on a collected package and are not
  collected yet.
\<close>

definition new_dependents :: "PackageGraph \<Rightarrow> string list \<Rightarrow> string list" where
  "new_dependents g acc =
     map node_name (filter (\<lambda>node. node_name node \<notin> set acc \<and> depends_on_one_of acc node) g)"

text \<open>
  Modelled from the spec: the transitive dependents, collected round by round until a round
  adds nothing.
\<close>

function collectDependents :: "PackageGraph \<Rightarrow> string list \<Rightarrow> string list" where
  "collectDependents g acc =
     (if new_dependents g acc = [] then acc
      else collectDependents g (acc @ new_dependents g acc))"
  by pat_completeness auto
termination
proof (relation "measure (\<lambda>(g, acc). card (set (map node_name g) - set acc))")
  show "wf (measure (\<lambda>(g, acc). card (set (map node_name g) - set acc)))"
    by simp
next
  fix g :: PackageGraph and acc :: "string list"
  assume ne: "new_dependents g acc \<noteq> []"
  then obtain x where x: "x \<in> set (new_dependents g acc)"
    by (cases "new_dependents g acc") auto
  then have xg: "x \<in> set (map node_name g)" and xa: "x \<notin> set acc"
    by (auto simp: new_dependents_def)
  have "set (map node_name g) - set (acc @ new_dependents g acc)
          \<subset> set (map node_name g) - set acc"
    using x xg xa by auto
  then have "card (set (map node_name g) - set (acc @ new_dependents g acc))
          < card (set (map node_name g) - set acc)"
    by (intro psubset_card_mono) auto
  then show "((g, acc @ new_dependents g acc), (g, acc))
          \<in> measure (\<lambda>(g, acc). card (set (map node_name g) - set acc))"
    by simp
qed

declare collectDependents.simps [simp del]

text \<open>
  Modelled from the spec: \<^verbatim>\<open>collectPackages(packageGraph, {isCandidate})\<close>, the candidates
  and their transitive dependents, in the order of the graph.
\<close>

definition collectPackages :: "PackageGraph \<Rightarrow> (PackageGraphNode \<Rightarrow> bool) \<Rightarrow> PackageGraphNode list" where
  "collectPackages g isCandidate =
     filter (\<lambda>node. node_name node \<in>
               set (collectDependents g (map node_name (filter isCandidate g)))) g"

text \<open>
  Modelled from the spec: \<^verbatim>\<open>updateLocalDependency\<close> of \<^verbatim>\<open>@lerna/package\<close>, which is
  not among the sources. The version range of a dependency is rewritten to the prefix
  followed by the new version of the dependency, but only if the reference is a registered
  range (type \<^verbatim>\<open>range\<close>); a reference of any other kind is left as it is.
\<close>

definition updateLocalDependency ::
  "LernaPackage \<Rightarrow> Resolved \<Rightarrow> string \<Rightarrow> string \<Rightarrow> LernaPackage" where
  "updateLocalDependency p resolved depVersion savePrefix =
     (if r_type resolved = ''range''
      then p\<lparr>dependencies :=
               AList.update (r_name resolved) (savePrefix @ depVersion) (dependencies p)\<rparr>
      else p)"

text \<open>
  Modelled from the spec: \<^verbatim>\<open>runTopologically\<close> of \<^verbatim>\<open>@lerna/run-topologically\<close> with
  concurrency one and cycles tolerated. A package is processed after all its local
  dependencies among the packages given; one pass takes the first package that is ready,
  or, inside a cycle, the first that is left. The results come in processing order.
\<close>

text \<open>
  Modelled from the spec: a package is ready when none of its local dependencies (other than
  itself) is among the packages that remain.
\<close>

definition ready :: "PackageGraph \<Rightarrow> LernaPackage list \<Rightarrow> LernaPackage \<Rightarrow> bool" where
  "ready g remaining p =
     (case graph_get g (name p) of
        None \<Rightarrow> True
      | Some node \<Rightarrow>
          list_all (\<lambda>d. d = name p \<or> d \<notin> set (map name remaining))
            (map fst (localDependencies node)))"

text \<open>
  Modelled from the spec: the next package of the pass, the first that is ready, or the
  first that remains when a cycle leaves none ready.
\<close>

definition next_package :: "PackageGraph \<Rightarrow> LernaPackage \<Rightarrow> LernaPackage list \<Rightarrow> LernaPackage" where
  "next_package g p ps = (case filter (ready g (p # ps)) (p # ps) of [] \<Rightarrow> p | q # qs \<Rightarrow> q)"

text \<open>Modelled from the spec: the processing order.\<close>

function topological_order :: "PackageGraph \<Rightarrow> LernaPackage list \<Rightarrow> LernaPackage list" where
  "topological_order g [] = []"
| "topological_order g (p # ps) =
     next_package g p ps # topological_order g (remove1 (next_package g p ps) (p # ps))"
  by pat_completeness auto
termination
proof (relation "measure (\<lambda>(g, ps). length ps)")
  show "wf (measure (\<lambda>(g, ps). length ps))"
    by simp
next
  fix g :: PackageGraph and p :: LernaPackage and ps :: "LernaPackage list"
  have "next_package g p ps \<in> set (p # ps)"
  proof (cases "filter (ready g (p # ps)) (p # ps)")
    case Nil
    then show ?thesis by (simp add: next_package_def)
  next
    case (Cons q qs)
    then have "q \<in> set (filter (ready g (p # ps)) (p # ps))" by simp
    then have "q \<in> set (p # ps)" by (simp only: set_filter) blast
    with Cons show ?thesis by (simp add: next_package_def)
  qed
  then have "length (remove1 (next_package g p ps) (p # ps)) < length (p # ps)"
    by (simp add: length_remove1 del: remove1.simps)
  then show "((g, remove1 (next_package g p ps) (p # ps)), (g, p # ps))
          \<in> measure (\<lambda>(g, ps). length ps)"
    by simp
qed

text \<open>
  Modelled from the spec: \<^verbatim>\<open>runTopologically(packages, runner, opts)\<close>, the results of the
  runner in processing order.
\<close>

definition runTopologically ::
  "PackageGraph \<Rightarrow> LernaPackage list \<Rightarrow> (LernaPackage \<Rightarrow> LernaPackage) \<Rightarrow> LernaPackage list" where
  "runTopologically g pkgs run_one = map run_one (topological_order g pkgs)"

subsection \<open>The propagation pass (runLernaVersion)\<close>

text \<open>
  The loop that fills \<^verbatim>\<open>updatesVersions\<close> (a map from package name to new version) and
  \<^verbatim>\<open>invalidVersions\<close> (a set of names). \<open>inc\<close> is \<^verbatim>\<open>semver.inc(v, 'patch')\<close>, a parameter:
  \<open>None\<close> is its null.
\<close>

fun updatesVersions_loop ::
  "(string \<Rightarrow> string option) \<Rightarrow> PathPkgJson \<Rightarrow> PackageGraphNode list \<Rightarrow>
   (string \<times> string) list \<times> string list \<Rightarrow> (string \<times> string) list \<times> string list" where
  "updatesVersions_loop inc rpUpdatedPkgs [] acc = acc"
| "updatesVersions_loop inc rpUpdatedPkgs (node # nodes) (updatesVersions, invalidVersions) =
     (if has rpUpdatedPkgs (node_location node) then
        updatesVersions_loop inc rpUpdatedPkgs nodes
          (AList.update (node_name node) (node_version node) updatesVersions, invalidVersions)
      else
        (case inc (node_version node) of
           None \<Rightarrow>
             updatesVersions_loop inc rpUpdatedPkgs nodes
               (updatesVersions, List.insert (node_name node) invalidVersions)
         | Some patch \<Rightarrow>
             updatesVersions_loop inc rpUpdatedPkgs nodes
               (AList.update (node_name node) patch updatesVersions, invalidVersions)))"

text \<open>
  The loop of \<^verbatim>\<open>runner\<close> over the local dependencies of a package:
  \<^verbatim>\<open>if (depVersion && resolved.type !== 'directory')\<close>; an empty string is falsy.
\<close>

fun runner_loop ::
  "(string \<times> string) list \<Rightarrow> (string \<times> Resolved) list \<Rightarrow> LernaPackage \<Rightarrow> LernaPackage" where
  "runner_loop updatesVersions [] p = p"
| "runner_loop updatesVersions ((depName, resolved) # ds) p =
     runner_loop updatesVersions ds
       (case map_of updatesVersions depName of
          None \<Rightarrow> p
        | Some depVersion \<Rightarrow>
            if depVersion \<noteq> [] \<and> r_type resolved \<noteq> ''directory''
            then updateLocalDependency p resolved depVersion ''^''
            else p)"

text \<open>
  \<^verbatim>\<open>runner\<close>. Every package it is given has a version in \<^verbatim>\<open>updatesVersions\<close> and a
  node in the graph; the two \<open>None\<close> cases are written to make the function total and leave
  the package as it is.
\<close>

definition runner ::
  "(string \<times> string) list \<Rightarrow> PackageGraph \<Rightarrow> LernaPackage \<Rightarrow> LernaPackage" where
  "runner updatesVersions packageGraph p =
     (let p1 = (case map_of updatesVersions (name p) of
                  None \<Rightarrow> p
                | Some v \<Rightarrow> p\<lparr>version := v\<rparr>)
      in case graph_get packageGraph (name p1) of
           None \<Rightarrow> p1
         | Some graphPkg \<Rightarrow> runner_loop updatesVersions (localDependencies graphPkg) p1)"

definition runLernaVersion ::
  "(string \<Rightarrow> string option) \<Rightarrow> PathPkgJson \<Rightarrow> PackageGraph \<Rightarrow> (string \<times> LernaPackage) list" where
  "runLernaVersion inc rpUpdatedPkgs packageGraph =
     (let updatesWithDependents =
            collectPackages packageGraph (\<lambda>node. has rpUpdatedPkgs (node_location node))
      in case updatesVersions_loop inc rpUpdatedPkgs updatesWithDependents ([], []) of
           (updatesVersions, invalidVersions) \<Rightarrow>
             Map_new
               (map (\<lambda>p. (location p, p))
                  (runTopologically packageGraph
                     (map pkg
                        (filter (\<lambda>node. node_name node \<notin> set invalidVersions)
                           updatesWithDependents))
                     (runner updatesVersions packageGraph))))"

subsection \<open>Merging into the pull request data\<close>

text \<open>
  Modelled from the spec: \<^verbatim>\<open>packageJsonStringify\<close> is not among the sources. The content
  of a file is kept as the descriptor that it serialises (so that \<^verbatim>\<open>JSON.parse\<close> gives the
  descriptor back), or as text that \<^verbatim>\<open>JSON.parse\<close> rejects. Content that parses to a JSON
  value other than a descriptor is not represented.
\<close>

datatype file_content = Descriptor PackageJson | Text string

definition packageJsonStringify :: "PackageJson \<Rightarrow> file_content" where
  "packageJsonStringify j = Descriptor j"

record FileData =
  content :: file_content
  mode :: string

record PRData =
  prdata_version :: string
  changes :: "(string \<times> FileData) list"

record ManifestPackageWithPRData =
  config :: Package
  prData :: PRData

fun filterPackages_changes ::
  "string \<Rightarrow> (string \<times> FileData) list \<Rightarrow> PathPkgJson \<Rightarrow> error + PathPkgJson" where
  "filterPackages_changes pkgPath [] pathPkgs = Inr pathPkgs"
| "filterPackages_changes pkgPath ((p, fileData) # cs) pathPkgs =
     (if p = pkgPath @ ''/package.json'' then
        (case content fileData of
           Descriptor j \<Rightarrow> filterPackages_changes pkgPath cs (AList.update p j pathPkgs)
         | Text t \<Rightarrow> Inl SyntaxError)
      else filterPackages_changes pkgPath cs pathPkgs)"

fun filterPackages_loop :: "ManifestPackageWithPRData list \<Rightarrow> PathPkgJson \<Rightarrow> error + PathPkgJson" where
  "filterPackages_loop [] pathPkgs = Inr pathPkgs"
| "filterPackages_loop (p # ps) pathPkgs =
     (if releaseType (config p) = ''node'' then
        (case filterPackages_changes (path (config p)) (changes (prData p)) pathPkgs of
           Inl x \<Rightarrow> Inl x
         | Inr pathPkgs' \<Rightarrow> filterPackages_loop ps pathPkgs')
      else filterPackages_loop ps pathPkgs)"

definition filterPackages :: "ManifestPackageWithPRData list \<Rightarrow> error + PathPkgJson" where
  "filterPackages pkgsWithPRData = filterPackages_loop pkgsWithPRData []"

text \<open>
  The first loop of \<^verbatim>\<open>updatePkgsWithPRData\<close>, over the packages that have pull request
  data. It gives the packages (changed in place in the source), \<^verbatim>\<open>newManifestVersions\<close> and
  what is left of \<^verbatim>\<open>allUpdated\<close>.
\<close>

fun updatePkgsWithPRData_first ::
  "ManifestPackageWithPRData list \<Rightarrow> VersionsMap \<Rightarrow> (string \<times> LernaPackage) list \<Rightarrow>
   ManifestPackageWithPRData list \<times> VersionsMap \<times> (string \<times> LernaPackage) list" where
  "updatePkgsWithPRData_first [] newManifestVersions allUpdated = ([], newManifestVersions, allUpdated)"
| "updatePkgsWithPRData_first (p # ps) newManifestVersions allUpdated =
     (if releaseType (config p) \<noteq> ''node'' then
        (case updatePkgsWithPRData_first ps newManifestVersions allUpdated of
           (ps', r) \<Rightarrow> (p # ps', r))
      else
        (case map_of allUpdated (path (config p) @ ''/package.json'') of
           None \<Rightarrow>
             (case updatePkgsWithPRData_first ps newManifestVersions allUpdated of
                (ps', r) \<Rightarrow> (p # ps', r))
         | Some updated \<Rightarrow>
             (case updatePkgsWithPRData_first ps
                     (AList.update (path (config p)) (JStr (version updated)) newManifestVersions)
                     (AList.delete (path (config p) @ ''/package.json'') allUpdated) of
                (ps', r) \<Rightarrow>
                  (p\<lparr>prData := (prData p)
                       \<lparr>changes :=
                          AList.update (path (config p) @ ''/package.json'')
                            (case map_of (changes (prData p)) (path (config p) @ ''/package.json'') of
                               Some fileData \<Rightarrow> fileData
                             | None \<Rightarrow>
                                 \<lparr> content = packageJsonStringify (toJSON updated),
                                   mode = ''100644'' \<rparr>)
                            (changes (prData p))\<rparr>\<rparr> # ps',
                   r))))"

text \<open>
  The second loop, over what is left of \<^verbatim>\<open>allUpdated\<close>. The package found in the
  configuration takes the name of the update; \<^verbatim>\<open>filePath.replace(/\/package.json$/, '')\<close> is
  the path of that package, as \<^verbatim>\<open>filePath\<close> is this path followed by \<^verbatim>\<open>/package.json\<close>.
\<close>

fun updatePkgsWithPRData_second ::
  "Package list \<Rightarrow> (string \<times> LernaPackage) list \<Rightarrow>
   ManifestPackageWithPRData list \<times> VersionsMap \<Rightarrow> ManifestPackageWithPRData list \<times> VersionsMap" where
  "updatePkgsWithPRData_second parsed [] acc = acc"
| "updatePkgsWithPRData_second parsed ((filePath, update) # us) (pkgsWithPRData, newManifestVersions) =
     (case find (\<lambda>p. path p @ ''/package.json'' = filePath) parsed of
        None \<Rightarrow> updatePkgsWithPRData_second parsed us (pkgsWithPRData, newManifestVersions)
      | Some p \<Rightarrow>
          updatePkgsWithPRData_second parsed us
            (pkgsWithPRData @
               [\<lparr> config = p\<lparr>packageName := Some (name update)\<rparr>,
                  prData =
                    \<lparr> prdata_version = version update,
                      changes =
                        [(filePath,
                          \<lparr> content = packageJsonStringify (toJSON update),
                            mode = ''100644'' \<rparr>)] \<rparr> \<rparr>],
             AList.update (path p) (JStr (version update)) newManifestVersions))"

definition updatePkgsWithPRData ::
  "Package list \<Rightarrow> ManifestPackageWithPRData list \<Rightarrow> VersionsMap \<Rightarrow>
   (string \<times> LernaPackage) list \<Rightarrow> ManifestPackageWithPRData list \<times> VersionsMap" where
  "updatePkgsWithPRData parsed pkgsWithPRData newManifestVersions allUpdated =
     (case updatePkgsWithPRData_first pkgsWithPRData newManifestVersions allUpdated of
        (pkgsWithPRData', newManifestVersions', allUpdated') \<Rightarrow>
          updatePkgsWithPRData_second parsed allUpdated' (pkgsWithPRData', newManifestVersions'))"

text \<open>
  \<^verbatim>\<open>run\<close>. \<open>parsed\<close> is \<^verbatim>\<open>config.parsedPackages\<close>; \<open>packageGraph\<close> is the graph that
  lerna builds over the packages read by \<^verbatim>\<open>getAllWorkspacePackages\<close>.
\<close>

definition run ::
  "(string \<Rightarrow> string option) \<Rightarrow> Package list \<Rightarrow> PackageGraph \<Rightarrow> VersionsMap \<Rightarrow>
   ManifestPackageWithPRData list \<Rightarrow> error + (VersionsMap \<times> ManifestPackageWithPRData list)" where
  "run inc parsed packageGraph newManifestVersions pkgsWithPRData =
     (case filterPackages pkgsWithPRData of
        Inl x \<Rightarrow> Inl x
      | Inr rpUpdatedPkgs \<Rightarrow>
          (case updatePkgsWithPRData parsed pkgsWithPRData newManifestVersions
                  (runLernaVersion inc rpUpdatedPkgs packageGraph) of
             (pkgsWithPRData', newManifestVersions') \<Rightarrow>
               Inr (newManifestVersions', pkgsWithPRData')))"

subsection \<open>An increment function for the examples\<close>

text \<open>
  The theorems below hold for every increment function. The examples use this one: the
  patch increment of a plain version \<^verbatim>\<open>MAJOR.MINOR.PATCH\<close> of decimal numbers, and
  \<open>None\<close> for a string that has another form.
\<close>

definition digit_of :: "char \<Rightarrow> nat option" where
  "digit_of c = map_of (zip ''0123456789'' [0, 1, 2, 3, 4, 5, 6, 7, 8, 9]) c"

fun parse_nat_acc :: "nat \<Rightarrow> string \<Rightarrow> nat option" where
  "parse_nat_acc acc [] = Some acc"
| "parse_nat_acc acc (c # cs) =
     (case digit_of c of None \<Rightarrow> None | Some d \<Rightarrow> parse_nat_acc (10 * acc + d) cs)"

definition parse_nat :: "string \<Rightarrow> nat option" where
  "parse_nat s = (if s = [] then None else parse_nat_acc 0 s)"

fun show_nat :: "nat \<Rightarrow> string" where
  "show_nat n =
     (if n < 10 then [''0123456789'' ! n]
      else show_nat (n div 10) @ [''0123456789'' ! (n mod 10)])"

fun split_dots :: "string \<Rightarrow> string list" where
  "split_dots [] = [[]]"
| "split_dots (c # cs) =
     (if c = CHR ''.'' then [] # split_dots cs
      else (case split_dots cs of [] \<Rightarrow> [[c]] | w # ws \<Rightarrow> (c # w) # ws))"

definition inc_patch_plain :: "string \<Rightarrow> string option" where
  "inc_patch_plain v =
     (case split_dots v of
        [major, minor, patch] \<Rightarrow>
          (case (parse_nat major, parse_nat minor, parse_nat patch) of
             (Some a, Some b, Some c) \<Rightarrow> Some (major @ ''.'' @ minor @ ''.'' @ show_nat (Suc c))
           | _ \<Rightarrow> None)
      | _ \<Rightarrow> None)"

subsection \<open>Observations on the release creation flow\<close>

text \<open>
  The failure of \<^verbatim>\<open>createRelease\<close> for a candidate, if there is one: the candidate has a
  last version, so that the loop calls \<^verbatim>\<open>createRelease\<close>, and the call throws.
\<close>

definition create_failure :: "env \<Rightarrow> MergedPR \<Rightarrow> PackageReleaseData \<Rightarrow> RequestFailure option" where
  "create_failure e lastMergedPR p =
     (case lastVersion p of
        None \<Rightarrow> None
      | Some v \<Rightarrow>
          if truthy v then
            (case releaser_createRelease e (releaserOptions p) v lastMergedPR of
               Throws err \<Rightarrow> Some err
             | Returns r \<Rightarrow> None)
          else None)"

text \<open>
  The duplicate tag conflict: status 422 with the error \<^verbatim>\<open>already_exists\<close> on the field
  \<^verbatim>\<open>tag_name\<close>.
\<close>

definition duplicate_tag_conflict :: "RequestFailure \<Rightarrow> bool" where
  "duplicate_tag_conflict err = (err_status err = 422 \<and> already_exists err)"

text \<open>
  A generic failure, in the words of the specification: \<^verbatim>\<open>createRelease\<close> fails for the
  candidate, and the failure is any other than the duplicate tag conflict.
\<close>

definition generic_failure :: "env \<Rightarrow> MergedPR \<Rightarrow> PackageReleaseData \<Rightarrow> bool" where
  "generic_failure e lastMergedPR p =
     (case create_failure e lastMergedPR p of
        None \<Rightarrow> False
      | Some err \<Rightarrow> \<not> duplicate_tag_conflict err)"

text \<open>
  The failures for which the loop runs its \<^verbatim>\<open>else\<close> branch, where the flag is cleared:
  those that fail the test on status 422 and the list of errors.
\<close>

definition clears_flag :: "env \<Rightarrow> MergedPR \<Rightarrow> PackageReleaseData \<Rightarrow> bool" where
  "clears_flag e lastMergedPR p =
     (case create_failure e lastMergedPR p of
        None \<Rightarrow> False
      | Some err \<Rightarrow> \<not> unprocessable_with_errors err)"

text \<open>
  The failures between the two: status 422 with a list of errors whose first entry is not
  the duplicate tag. They are no duplicate tag conflict, and the loop does not run its
  \<^verbatim>\<open>else\<close> branch for them.
\<close>

definition unclassified_failure :: "env \<Rightarrow> MergedPR \<Rightarrow> PackageReleaseData \<Rightarrow> bool" where
  "unclassified_failure e lastMergedPR p =
     (case create_failure e lastMergedPR p of
        None \<Rightarrow> False
      | Some err \<Rightarrow> unprocessable_with_errors err \<and> \<not> already_exists err)"

fun is_label_call :: "gh_call \<Rightarrow> bool" where
  "is_label_call (AddLabels ls n) = True"
| "is_label_call (RemoveLabels ls n) = True"
| "is_label_call c = False"

definition label_calls :: "gh_call list \<Rightarrow> gh_call list" where
  "label_calls cs = filter is_label_call cs"

subsection \<open>A code host for the examples\<close>

definition ex_pkgcfg :: ReleaserPackageConfig where
  "ex_pkgcfg =
     \<lparr> pc_release_type = None, pc_package_name = None, pc_release_as = None,
       pc_release_draft = None \<rparr>"

definition ex_config :: ConfigJson where
  "ex_config =
     \<lparr> packages = [(''a'', ex_pkgcfg), (''b'', ex_pkgcfg)], release_type = None,
       release_as = None, release_draft = None, bootstrap_sha = None \<rparr>"

text \<open>A commit belongs to a package when one of its files lies under the package's path.\<close>

definition ex_split :: "string list \<Rightarrow> Commit list \<Rightarrow> string \<Rightarrow> Commit list option" where
  "ex_split paths cs p =
     Some (filter (\<lambda>c. list_ex (\<lambda>f. take (Suc (length p)) f = p @ ''/'') (c_files c)) cs)"

definition ex_pr :: "string list \<Rightarrow> MergedPR" where
  "ex_pr files =
     \<lparr> pr_sha = ''abc'', pr_number = 7, pr_labels = [''pending''], pr_files = files \<rparr>"

text \<open>
  The code host of the examples. The parameters are the manifest at the tip of the default
  branch, the manifest at every commit, the files of the last merged pull request, and the
  outcome of \<^verbatim>\<open>createRelease\<close> for each package path.
\<close>

definition ex_manifest_file :: "ManifestJson \<Rightarrow> ManifestJson \<Rightarrow> string option \<Rightarrow> ManifestJson fetched" where
  "ex_manifest_file tip old sha = (case sha of None \<Rightarrow> Content tip | Some c \<Rightarrow> Content old)"

definition ex_commitsSinceSha :: "string list \<Rightarrow> string option \<Rightarrow> Commit list" where
  "ex_commitsSinceSha files sha = [\<lparr> c_sha = ''def'', c_message = ''fix'', c_files = files \<rparr>]"

definition ex_lastMergedPR :: "string list \<Rightarrow> string \<Rightarrow> MergedPR option" where
  "ex_lastMergedPR files branch = Some (ex_pr files)"

definition ex_getOpenPROptions ::
  "ReleaserOptions \<Rightarrow> Commit list \<Rightarrow> (json \<times> string) option \<Rightarrow> OpenPROptions option" where
  "ex_getOpenPROptions ro cs tag =
     Some \<lparr> o_version = ''9.9.9'', o_changelogEntry = ''fix'', o_updates = [] \<rparr>"

definition ex_createRelease ::
  "(string \<Rightarrow> create_result) \<Rightarrow> ReleaserOptions \<Rightarrow> json \<Rightarrow> MergedPR \<Rightarrow> create_result" where
  "ex_createRelease create ro v pr = create (ro_path ro)"

definition ex_env ::
  "ManifestJson \<Rightarrow> ManifestJson \<Rightarrow> string list \<Rightarrow> (string \<Rightarrow> create_result) \<Rightarrow> env" where
  "ex_env tip old files create =
     \<lparr> config_file = Content ex_config,
       manifest_file = ex_manifest_file tip old,
       manifestFileName = ''manifest.json'',
       branchName = ''release'',
       gh_lastMergedPRByHeadBranch = ex_lastMergedPR files,
       gh_commitsSinceSha = ex_commitsSinceSha files,
       gh_openPR = Some 8,
       cs_split = ex_split,
       releaser_getPackageName = ro_path,
       releaser_packageName = ro_path,
       releaser_getOpenPROptions = ex_getOpenPROptions,
       releaser_createRelease = ex_createRelease create,
       DEFAULT_LABELS = [''pending''],
       GITHUB_RELEASE_LABEL = ''released'',
       RELEASE_PLEASE = ''release-please'' \<rparr>"

definition ex_manifest :: ManifestJson where
  "ex_manifest = [(''a'', JStr ''1.0.0''), (''b'', JStr ''2.0.0'')]"

text \<open>A manifest with a number among its values, and the manifest of an older commit.\<close>

definition ex_numeric_manifest :: ManifestJson where
  "ex_numeric_manifest = [(''a'', JStr ''1.0.0''), (''b'', JNum 2)]"

definition ex_old_manifest :: ManifestJson where
  "ex_old_manifest = [(''a'', JStr ''1.0.0'')]"

definition ex_created :: "string \<Rightarrow> create_result" where
  "ex_created p = Returns (Some \<lparr> html_url = ''url'', tag_name = p \<rparr>)"

definition ex_invalid_body :: RequestFailure where
  "ex_invalid_body =
     \<lparr> err_status = 422,
       err_errors = Some [\<lparr> e_code = ''invalid'', e_field = ''body'' \<rparr>],
       err_message = ''Validation Failed'' \<rparr>"

definition ex_rejected :: "string \<Rightarrow> create_result" where
  "ex_rejected p = Throws ex_invalid_body"

text \<open>
  A second run after a partial one: the release of package a exists already, so that
  \<^verbatim>\<open>createRelease\<close> meets the duplicate tag conflict for it, and the release of b is created.
\<close>

definition ex_duplicate_tag :: RequestFailure where
  "ex_duplicate_tag =
     \<lparr> err_status = 422,
       err_errors = Some [\<lparr> e_code = ''already_exists'', e_field = ''tag_name'' \<rparr>],
       err_message = ''Validation Failed'' \<rparr>"

definition ex_second_run :: "string \<Rightarrow> create_result" where
  "ex_second_run p = (if p = ''a'' then Throws ex_duplicate_tag else ex_created p)"

text \<open>An outage of the code host after the release of package a: status 500 for b.\<close>

definition ex_unavailable :: RequestFailure where
  "ex_unavailable = \<lparr> err_status = 500, err_errors = None, err_message = ''Server Error'' \<rparr>"

definition ex_outage :: "string \<Rightarrow> create_result" where
  "ex_outage p = (if p = ''a'' then ex_created p else Throws ex_unavailable)"

definition ex_candidate :: "string \<Rightarrow> string \<Rightarrow> PackageReleaseData" where
  "ex_candidate p v =
     \<lparr> prd_package = parsePackage ex_config (p, ex_pkgcfg),
       releaserOptions = releaserOptions_of (parsePackage ex_config (p, ex_pkgcfg)),
       commits = [\<lparr> c_sha = ''abc'', c_message = [], c_files = [p @ ''/package.json''] \<rparr>],
       lastVersion = Some (JStr v) \<rparr>"

definition ex_cfg :: Config where
  "ex_cfg = \<lparr> parsedPackages = map (parsePackage ex_config) (packages ex_config),
              config_json = ex_config \<rparr>"

definition ex_commit :: "string list \<Rightarrow> Commit" where
  "ex_commit files = \<lparr> c_sha = ''abc'', c_message = [], c_files = files \<rparr>"

subsection \<open>Observations on the propagation pass\<close>

text \<open>
  \<open>depends_on g b a\<close>: in the graph, the package named \<open>b\<close> has a path of one or more local
  dependency edges to the package named \<open>a\<close>.
\<close>

inductive depends_on :: "PackageGraph \<Rightarrow> string \<Rightarrow> string \<Rightarrow> bool" for g :: PackageGraph where
  edge: "node \<in> set g \<Longrightarrow> (d, r) \<in> set (localDependencies node) \<Longrightarrow>
         depends_on g (node_name node) d"
| path: "node \<in> set g \<Longrightarrow> (d, r) \<in> set (localDependencies node) \<Longrightarrow> depends_on g d a \<Longrightarrow>
         depends_on g (node_name node) a"

code_pred depends_on .

text \<open>
  The graph is well formed: names are unique (the graph is a map keyed by name), locations are
  unique (they are the paths of the configuration), and the local dependencies of a node are
  a map keyed by the name of the dependency, which is the name of its resolved reference.
\<close>

definition wf_graph :: "PackageGraph \<Rightarrow> bool" where
  "wf_graph g =
     (distinct (map node_name g) \<and> distinct (map node_location g) \<and>
      list_all (\<lambda>node. distinct (map fst (localDependencies node)) \<and>
                  list_all (\<lambda>dr. r_name (snd dr) = fst dr) (localDependencies node)) g)"

text \<open>The version that the loop gives to a candidate: \<open>None\<close> when the candidate is invalid.\<close>

definition new_version :: "(string \<Rightarrow> string option) \<Rightarrow> PathPkgJson \<Rightarrow> PackageGraphNode \<Rightarrow> string option" where
  "new_version inc rpUpdatedPkgs node =
     (if has rpUpdatedPkgs (node_location node) then Some (node_version node)
      else inc (node_version node))"

text \<open>
  The variables of \<^verbatim>\<open>runLernaVersion\<close>: the candidates, the new versions by name, and the
  names with a version that cannot be incremented.
\<close>

definition updatesWithDependents :: "PathPkgJson \<Rightarrow> PackageGraph \<Rightarrow> PackageGraphNode list" where
  "updatesWithDependents rp g = collectPackages g (\<lambda>node. has rp (node_location node))"

definition updatesVersions :: "(string \<Rightarrow> string option) \<Rightarrow> PathPkgJson \<Rightarrow> PackageGraph \<Rightarrow> (string \<times> string) list" where
  "updatesVersions inc rp g = fst (updatesVersions_loop inc rp (updatesWithDependents rp g) ([], []))"

definition invalidVersions :: "(string \<Rightarrow> string option) \<Rightarrow> PathPkgJson \<Rightarrow> PackageGraph \<Rightarrow> string list" where
  "invalidVersions inc rp g = snd (updatesVersions_loop inc rp (updatesWithDependents rp g) ([], []))"

subsection \<open>Workspaces for the examples\<close>

definition ex_pkg :: "string \<Rightarrow> string \<Rightarrow> string \<Rightarrow> (string \<times> string) list \<Rightarrow> LernaPackage" where
  "ex_pkg n v p deps =
     \<lparr> name = n, version = v, location = p @ ''/package.json'', dependencies = deps \<rparr>"

definition ex_node :: "LernaPackage \<Rightarrow> (string \<times> string) list \<Rightarrow> PackageGraphNode" where
  "ex_node p edges =
     \<lparr> pkg = p,
       localDependencies = map (\<lambda>dt. (fst dt, \<lparr> r_name = fst dt, r_type = snd dt \<rparr>)) edges \<rparr>"

text \<open>pkgA is the package that the releaser has updated, from 1.1.1 to 1.1.2.\<close>

definition ex_pkgA :: LernaPackage where
  "ex_pkgA = ex_pkg ''pkgA'' ''1.1.2'' ''a'' [(''foo'', ''^4.1.7'')]"

definition ex_rp :: PathPkgJson where
  "ex_rp = [(''a/package.json'', toJSON ex_pkgA)]"

text \<open>The chain of the spec: pkgB depends on pkgA, pkgC on pkgB; pkgD depends on neither.\<close>

definition ex_chainB :: PackageGraphNode where
  "ex_chainB =
     ex_node (ex_pkg ''pkgB'' ''2.2.2'' ''b'' [(''pkgA'', ''^1.1.1''), (''ext'', ''^9.2.3'')])
       [(''pkgA'', ''range'')]"

definition ex_chainD :: PackageGraphNode where
  "ex_chainD = ex_node (ex_pkg ''pkgD'' ''4.4.4'' ''d'' [(''ext'', ''^1.0.0'')]) []"

definition ex_chain :: PackageGraph where
  "ex_chain =
     [ex_node ex_pkgA [],
      ex_chainB,
      ex_node (ex_pkg ''pkgC'' ''3.3.3'' ''c'' [(''pkgB'', ''^2.2.2''), (''ext'', ''^4.3.1'')])
        [(''pkgB'', ''range'')],
      ex_chainD]"

text \<open>Two dependents of pkgA, the first with a version that is no semantic version.\<close>

definition ex_invalidB :: PackageGraphNode where
  "ex_invalidB =
     ex_node (ex_pkg ''pkgB'' ''not-a-version'' ''b'' [(''pkgA'', ''^1.1.1'')]) [(''pkgA'', ''range'')]"

definition ex_validC :: PackageGraphNode where
  "ex_validC =
     ex_node (ex_pkg ''pkgC'' ''3.3.3'' ''c'' [(''pkgA'', ''^1.1.1'')]) [(''pkgA'', ''range'')]"

definition ex_siblings :: PackageGraph where
  "ex_siblings = [ex_node ex_pkgA [], ex_invalidB, ex_validC]"

text \<open>
  Two dependents of pkgA: pkgB refers to its directory, pkgC to a range of its versions.
\<close>

definition ex_linkedB :: PackageGraphNode where
  "ex_linkedB =
     ex_node (ex_pkg ''pkgB'' ''2.2.2'' ''b'' [(''pkgA'', ''file:../a'')]) [(''pkgA'', ''directory'')]"

definition ex_links :: PackageGraph where
  "ex_links = [ex_node ex_pkgA [], ex_linkedB, ex_validC]"

text \<open>
  The triangle: the releasers have updated pkgA (to 1.1.2) and pkgB (to 2.3.0); pkgB depends
  on pkgA, and pkgC, which no releaser has updated, on both.
\<close>

definition ex_pkgB2 :: LernaPackage where
  "ex_pkgB2 = ex_pkg ''pkgB'' ''2.3.0'' ''b'' [(''pkgA'', ''^1.1.1'')]"

definition ex_triangle :: PackageGraph where
  "ex_triangle =
     [ex_node ex_pkgA [],
      ex_node ex_pkgB2 [(''pkgA'', ''range'')],
      ex_node (ex_pkg ''pkgC'' ''3.3.3'' ''c'' [(''pkgA'', ''^1.1.1''), (''pkgB'', ''^2.2.2'')])
        [(''pkgA'', ''range''), (''pkgB'', ''range'')]]"

definition ex_parsed :: "Package list" where
  "ex_parsed =
     map (\<lambda>p. \<lparr> path = p, releaseType = ''node'', packageName = None, releaseAs = None,
                releaseDraft = False \<rparr>) [''a'', ''b'', ''c'']"

definition ex_pending :: "LernaPackage \<Rightarrow> string \<Rightarrow> ManifestPackageWithPRData" where
  "ex_pending p pkgPath =
     \<lparr> config = \<lparr> path = pkgPath, releaseType = ''node'', packageName = None, releaseAs = None,
                  releaseDraft = False \<rparr>,
       prData = \<lparr> prdata_version = version p,
                  changes = [(pkgPath @ ''/package.json'',
                              \<lparr> content = packageJsonStringify (toJSON p), mode = ''100644'' \<rparr>)] \<rparr> \<rparr>"

section \<open>Properties\<close>

subsection \<open>The release creation flow\<close>

lemma githubRelease_step_flag:
  "allReleasesCreated (githubRelease_step e pr p st) =
     (allReleasesCreated st \<and> \<not> clears_flag e pr p)"
  by (simp add: githubRelease_step_def clears_flag_def create_failure_def Let_def
        split: option.splits create_result.splits)

lemma githubRelease_loop_flag:
  "allReleasesCreated (githubRelease_loop e pr ps st) =
     (allReleasesCreated st \<and> list_all (\<lambda>p. \<not> clears_flag e pr p) ps)"
  by (induction ps arbitrary: st) (auto simp: githubRelease_step_flag)

lemma githubRelease_step_label_calls:
  "label_calls (calls (githubRelease_step e pr p st)) = label_calls (calls st)"
  by (simp add: githubRelease_step_def label_calls_def Let_def
        split: option.splits create_result.splits)

lemma githubRelease_loop_label_calls:
  "label_calls (calls (githubRelease_loop e pr ps st)) = label_calls (calls st)"
  by (induction ps arbitrary: st) (simp_all add: githubRelease_step_label_calls)

text \<open>
  The duplicate tag conflict passes the test on status 422 and the list of errors; a failure
  that passes this test is the duplicate tag conflict unless it is an unclassified failure.
  So, unclassified failures apart, the flag is cleared exactly for the generic failures.
\<close>

lemma duplicate_tag_conflict_unprocessable:
  "duplicate_tag_conflict err \<Longrightarrow> unprocessable_with_errors err"
  by (auto simp: duplicate_tag_conflict_def already_exists_def unprocessable_with_errors_def
        split: option.splits list.splits)

lemma unprocessable_duplicate_tag_conflict:
  "unprocessable_with_errors err \<Longrightarrow> already_exists err \<Longrightarrow> duplicate_tag_conflict err"
  by (simp add: duplicate_tag_conflict_def unprocessable_with_errors_def)

lemma clears_flag_generic_failure:
  assumes "\<not> unclassified_failure e pr p"
  shows "clears_flag e pr p = generic_failure e pr p"
proof (cases "create_failure e pr p")
  case None
  then show ?thesis
    by (simp add: clears_flag_def generic_failure_def)
next
  case (Some err)
  with assms have classified: "unprocessable_with_errors err \<Longrightarrow> already_exists err"
    by (simp add: unclassified_failure_def)
  have "unprocessable_with_errors err = duplicate_tag_conflict err"
    using classified duplicate_tag_conflict_unprocessable unprocessable_duplicate_tag_conflict
    by blast
  with Some show ?thesis
    by (simp add: clears_flag_def generic_failure_def)
qed

text \<open>
  Claim C4, as amended. Let no candidate fail with status 422 and a list of errors whose
  first entry is not the duplicate tag (what the loop does with such a failure is not stated
  here). Then after the loop the pull request is re-labelled (the released label is added,
  the pending labels are removed) if and only if the list of candidates is not empty and no
  candidate failed generically, that is, \<^verbatim>\<open>createRelease\<close> failed for no candidate with a
  failure other than the duplicate tag conflict. Otherwise no label is changed: the pending
  label stays, and a later run tries again. A candidate that is skipped for a missing last
  version, or for which \<^verbatim>\<open>createRelease\<close> returned nothing, has not failed.
\<close>

theorem githubRelease_relabel_iff:
  assumes "\<forall>p \<in> set ps. \<not> unclassified_failure e pr p"
  shows "label_calls (fst (githubRelease_create e pr ps)) =
     (if ps \<noteq> [] \<and> (\<forall>p \<in> set ps. \<not> generic_failure e pr p)
      then [AddLabels [GITHUB_RELEASE_LABEL e] (pr_number pr),
            RemoveLabels (DEFAULT_LABELS e) (pr_number pr)]
      else [])"
proof -
  let ?st = "githubRelease_loop e pr ps
               \<lparr> releases = [], allReleasesCreated = (ps \<noteq> []), calls = [] \<rparr>"
  have "allReleasesCreated ?st = (ps \<noteq> [] \<and> (\<forall>p \<in> set ps. \<not> clears_flag e pr p))"
    by (simp add: githubRelease_loop_flag list_all_iff)
  also have "(\<forall>p \<in> set ps. \<not> clears_flag e pr p) = (\<forall>p \<in> set ps. \<not> generic_failure e pr p)"
    using assms by (simp add: clears_flag_generic_failure)
  finally have flag:
    "allReleasesCreated ?st = (ps \<noteq> [] \<and> (\<forall>p \<in> set ps. \<not> generic_failure e pr p))" .
  have "label_calls (calls ?st) = label_calls []"
    by (simp only: githubRelease_loop_label_calls release_state.simps)
  then have quiet: "filter is_label_call (calls ?st) = []"
    by (simp add: label_calls_def)
  show ?thesis
    using flag quiet
    by (simp add: githubRelease_create_def Let_def label_calls_def)
qed

theorem githubRelease_relabel_iff_witness:
  "filter (unclassified_failure (ex_env ex_manifest ex_manifest [] ex_second_run) (ex_pr []))
     [ex_candidate ''a'' ''1.0.0'', ex_candidate ''b'' ''2.0.0''] = [] \<and>
   filter (generic_failure (ex_env ex_manifest ex_manifest [] ex_second_run) (ex_pr []))
     [ex_candidate ''a'' ''1.0.0'', ex_candidate ''b'' ''2.0.0''] = [] \<and>
   label_calls (fst (githubRelease_create (ex_env ex_manifest ex_manifest [] ex_second_run) (ex_pr [])
      [ex_candidate ''a'' ''1.0.0'', ex_candidate ''b'' ''2.0.0''])) =
     [AddLabels [''released''] 7, RemoveLabels [''pending''] 7] \<and>
   filter (unclassified_failure (ex_env ex_manifest ex_manifest [] ex_outage) (ex_pr []))
     [ex_candidate ''a'' ''1.0.0'', ex_candidate ''b'' ''2.0.0''] = [] \<and>
   filter (generic_failure (ex_env ex_manifest ex_manifest [] ex_outage) (ex_pr []))
     [ex_candidate ''a'' ''1.0.0'', ex_candidate ''b'' ''2.0.0''] = [ex_candidate ''b'' ''2.0.0''] \<and>
   label_calls (fst (githubRelease_create (ex_env ex_manifest ex_manifest [] ex_outage) (ex_pr [])
      [ex_candidate ''a'' ''1.0.0'', ex_candidate ''b'' ''2.0.0''])) = []"
proof -
  let ?e1 = "ex_env ex_manifest ex_manifest [] ex_second_run"
  let ?e2 = "ex_env ex_manifest ex_manifest [] ex_outage"
  let ?ps = "[ex_candidate ''a'' ''1.0.0'', ex_candidate ''b'' ''2.0.0'']"
  have u1: "filter (unclassified_failure ?e1 (ex_pr [])) ?ps = []"
    by code_simp
  have g1: "filter (generic_failure ?e1 (ex_pr [])) ?ps = []"
    by code_simp
  have u2: "filter (unclassified_failure ?e2 (ex_pr [])) ?ps = []"
    by code_simp
  have g2: "filter (generic_failure ?e2 (ex_pr [])) ?ps = [ex_candidate ''b'' ''2.0.0'']"
    by code_simp
  from u1 have h1: "\<forall>p \<in> set ?ps. \<not> unclassified_failure ?e1 (ex_pr []) p"
    by (simp only: filter_empty_conv)
  from u2 have h2: "\<forall>p \<in> set ?ps. \<not> unclassified_failure ?e2 (ex_pr []) p"
    by (simp only: filter_empty_conv)
  from g1 have n1: "\<forall>p \<in> set ?ps. \<not> generic_failure ?e1 (ex_pr []) p"
    by (simp only: filter_empty_conv)
  have "ex_candidate ''b'' ''2.0.0'' \<in> set (filter (generic_failure ?e2 (ex_pr [])) ?ps)"
    by (simp only: g2) simp
  then have n2: "\<not> (\<forall>p \<in> set ?ps. \<not> generic_failure ?e2 (ex_pr []) p)"
    by (simp only: set_filter) blast
  have l1: "label_calls (fst (githubRelease_create ?e1 (ex_pr []) ?ps)) =
          [AddLabels [''released''] 7, RemoveLabels [''pending''] 7]"
    using githubRelease_relabel_iff [OF h1] n1
    by (simp add: ex_env_def ex_pr_def)
  have l2: "label_calls (fst (githubRelease_create ?e2 (ex_pr []) ?ps)) = []"
    using githubRelease_relabel_iff [OF h2] n2
    by simp
  from u1 g1 l1 u2 g2 l2 show ?thesis
    by (simp only: simp_thms)
qed

text \<open>
  Claim C4 as stated fails in both directions. For the empty list of candidates no candidate
  failed, and the pull request is not re-labelled. For the one candidate b, whose last
  version is in no manifest, no release is created (\<^verbatim>\<open>createRelease\<close> is not called and
  the release of b is undefined), and the pull request is re-labelled.
\<close>

theorem githubRelease_relabel_counterexample:
  "filter (generic_failure (ex_env ex_manifest ex_manifest [] ex_created) (ex_pr [])) [] = [] \<and>
   label_calls (fst (githubRelease_create (ex_env ex_manifest ex_manifest [] ex_created) (ex_pr []) [])) = [] \<and>
   githubRelease (ex_env ex_old_manifest ex_old_manifest [''b/package.json''] ex_created) =
     ([AddLabels [''released''] 7, RemoveLabels [''pending''] 7], Inr (Some [(''b'', None)]))"
  by code_simp

text \<open>
  Claim C10. When \<^verbatim>\<open>githubRelease()\<close> finds a merged pull request with the pending label
  and without the released label, and no configured package is a candidate, it returns the
  empty result and makes no call on the code host: no label is added or removed, because
  the flag starts as false for the empty list.
\<close>

theorem githubRelease_no_candidates:
  assumes "validate e"
    and "gh_lastMergedPRByHeadBranch e (branchName e) = Some lastMergedPR"
    and "GITHUB_RELEASE_LABEL e \<notin> set (pr_labels lastMergedPR)"
    and "has_pending_label e lastMergedPR"
    and "getPackagesToRelease e
           [\<lparr> c_sha = pr_sha lastMergedPR, c_message = [], c_files = pr_files lastMergedPR \<rparr>]
           (Some (pr_sha lastMergedPR)) = Inr []"
  shows "githubRelease e = ([], Inr (Some []))"
  using assms by (simp add: githubRelease_def githubRelease_create_def)

theorem githubRelease_no_candidates_witness:
  "githubRelease (ex_env ex_manifest ex_manifest [''README.md''] ex_created) = ([], Inr (Some []))"
proof -
  let ?e = "ex_env ex_manifest ex_manifest [''README.md''] ex_created"
  let ?pr = "ex_pr [''README.md'']"
  have v: "validate ?e"
    by code_simp
  have m: "gh_lastMergedPRByHeadBranch ?e (branchName ?e) = Some ?pr"
    by (simp add: ex_env_def ex_lastMergedPR_def)
  have l: "GITHUB_RELEASE_LABEL ?e \<notin> set (pr_labels ?pr)"
    by (simp add: ex_env_def ex_pr_def)
  have p: "has_pending_label ?e ?pr"
    by (simp add: has_pending_label_def ex_env_def ex_pr_def)
  have c: "getPackagesToRelease ?e
           [\<lparr> c_sha = pr_sha ?pr, c_message = [], c_files = pr_files ?pr \<rparr>]
           (Some (pr_sha ?pr)) = Inr []"
    by code_simp
  show ?thesis
    by (rule githubRelease_no_candidates [OF v m l p c])
qed

subsection \<open>Validation\<close>

lemma only_strings_iff: "only_strings m = (\<forall>kv \<in> set m. is_string (snd kv))"
  by (induction m rule: only_strings.induct) auto

text \<open>
  Claim C9. If the manifest document has a value that is not a string, \<^verbatim>\<open>validate()\<close>
  returns false, and \<^verbatim>\<open>pullRequest()\<close> and \<^verbatim>\<open>githubRelease()\<close> return undefined at once
  without any call that changes the code host: no pull request is opened, no label, comment
  or release is created.
\<close>

theorem validate_rejects_non_string_value:
  assumes "manifest_file e None = Content m" and "(k, v) \<in> set m" and "\<not> is_string v"
  shows "\<not> validate e \<and> pullRequest e = ([], Inr None) \<and> githubRelease e = ([], Inr None)"
proof -
  have "\<not> only_strings m"
    using assms(2,3) by (force simp: only_strings_iff)
  then have "\<not> validate e"
    using assms(1)
    by (simp add: validate_def validateJsonFile_def getManifestJson_def getFileJson_def Let_def
          split: option.splits)
  then show ?thesis
    by (simp add: pullRequest_def githubRelease_def)
qed

theorem validate_rejects_non_string_value_witness:
  "\<not> validate (ex_env ex_numeric_manifest ex_numeric_manifest [''a/package.json''] ex_created) \<and>
   pullRequest (ex_env ex_numeric_manifest ex_numeric_manifest [''a/package.json''] ex_created) =
     ([], Inr None) \<and>
   githubRelease (ex_env ex_numeric_manifest ex_numeric_manifest [''a/package.json''] ex_created) =
     ([], Inr None)"
proof -
  let ?e = "ex_env ex_numeric_manifest ex_numeric_manifest [''a/package.json''] ex_created"
  have f: "manifest_file ?e None = Content ex_numeric_manifest"
    by (simp add: ex_env_def ex_manifest_file_def)
  have i: "(''b'', JNum 2) \<in> set ex_numeric_manifest"
    by (simp add: ex_numeric_manifest_def)
  have n: "\<not> is_string (JNum 2)"
    by simp
  show ?thesis
    by (rule validate_rejects_non_string_value [OF f i n])
qed

subsection \<open>Failures of release creation\<close>

text \<open>
  What one turn of the loop does when \<^verbatim>\<open>createRelease\<close> throws. For status 422 with a
  list of errors (the duplicate tag conflict is such a failure) the flag is left as it is
  and no comment is posted. For every other failure the flag is cleared and a failure
  comment is posted. In both cases the release of the package is recorded as undefined and
  the loop goes on with the next package.
\<close>

lemma githubRelease_step_unprocessable:
  assumes "lastVersion p = Some v" and "truthy v"
    and "releaser_createRelease e (releaserOptions p) v pr = Throws err"
    and "unprocessable_with_errors err"
  shows "githubRelease_step e pr p st =
           st\<lparr>calls := calls st @ [CreateRelease (path (prd_package p)) v (pr_number pr)],
              releases := AList.update (path (prd_package p)) None (releases st)\<rparr>"
  using assms by (simp add: githubRelease_step_def Let_def)

lemma githubRelease_step_else_branch:
  assumes "lastVersion p = Some v" and "truthy v"
    and "releaser_createRelease e (releaserOptions p) v pr = Throws err"
    and "\<not> unprocessable_with_errors err"
  shows "githubRelease_step e pr p st =
           st\<lparr>allReleasesCreated := False,
              calls := calls st @
                [CreateRelease (path (prd_package p)) v (pr_number pr),
                 CommentOnIssue
                   ('':robot: Failed to create release for '' @
                    releaser_getPackageName e (releaserOptions p) @ '' :cloud:'')
                   (pr_number pr)],
              releases := AList.update (path (prd_package p)) None (releases st)\<rparr>"
  using assms by (simp add: githubRelease_step_def Let_def)

text \<open>
  Claim C2, at a failure that is not the duplicate tag conflict: \<^verbatim>\<open>createRelease\<close> throws
  status 422 with the one error \<^verbatim>\<open>{code: 'invalid', field: 'body'}\<close> for the only candidate.
  The flag is not cleared and no failure comment is posted: the pull request is re-labelled
  as released although no release was created.
\<close>

theorem githubRelease_unprocessable_other_error:
  "githubRelease (ex_env ex_manifest ex_manifest [''a/package.json''] ex_rejected) =
     ([CreateRelease ''a'' (JStr ''1.0.0'') 7,
       AddLabels [''released''] 7,
       RemoveLabels [''pending''] 7],
      Inr (Some [(''a'', None)]))"
  by code_simp


subsection \<open>The release candidate resolver\<close>

lemma getPackagesToRelease_loop_distinct:
  "distinct (map fst ptr) \<Longrightarrow>
   distinct (map fst (fst (getPackagesToRelease_loop mv cpp ps (ptr, ms))))"
  by (induction ps arbitrary: ptr ms) (auto simp: distinct_update split: option.splits)

lemma getPackagesToRelease_loop_keyed:
  "(\<And>k d. map_of ptr k = Some d \<Longrightarrow> path (prd_package d) = k) \<Longrightarrow>
   map_of (fst (getPackagesToRelease_loop mv cpp ps (ptr, ms))) k = Some d \<Longrightarrow>
   path (prd_package d) = k"
proof (induction ps arbitrary: ptr ms)
  case Nil
  then show ?case by simp
next
  case (Cons p ps)
  show ?case
  proof (cases "cpp (path p)")
    case None
    with Cons show ?thesis by auto
  next
    case (Some cs)
    show ?thesis
    proof (cases "cs = []")
      case True
      with Some Cons show ?thesis by auto
    next
      case False
      let ?d = "\<lparr> prd_package = p, releaserOptions = releaserOptions_of p, commits = cs,
                   lastVersion = map_of mv (path p) \<rparr>"
      let ?ptr = "AList.update (path p) ?d ptr"
      have keyed: "\<And>k d. map_of ?ptr k = Some d \<Longrightarrow> path (prd_package d) = k"
        using Cons.prems(1) by (auto simp: update_conv' split: if_splits)
      from Cons.prems(2) Some False
      have "map_of (fst (getPackagesToRelease_loop mv cpp ps
               (?ptr, if falsy_opt (map_of mv (path p)) then ms @ [path p] else ms))) k = Some d"
        by simp
      from Cons.IH [OF keyed this] show ?thesis .
    qed
  qed
qed

lemma getPackagesToRelease_loop_mono:
  "k \<in> fst ` set ptr \<Longrightarrow> k \<in> fst ` set (fst (getPackagesToRelease_loop mv cpp ps (ptr, ms)))"
  "q \<in> set ms \<Longrightarrow> q \<in> set (snd (getPackagesToRelease_loop mv cpp ps (ptr, ms)))"
  by (induction ps arbitrary: ptr ms) (auto simp: dom_update split: option.splits)

lemma getPackagesToRelease_loop_candidate:
  "p \<in> set ps \<Longrightarrow> cpp (path p) = Some cs \<Longrightarrow> cs \<noteq> [] \<Longrightarrow>
   path p \<in> fst ` set (fst (getPackagesToRelease_loop mv cpp ps (ptr, ms)))"
proof (induction ps arbitrary: ptr ms)
  case Nil
  then show ?case by simp
next
  case (Cons a ps)
  show ?case
  proof (cases "a = p")
    case True
    have "path p \<in> fst ` set (AList.update (path p) d ptr)" for d
      by (simp add: dom_update)
    then show ?thesis
      using True Cons.prems(2,3) by (simp add: getPackagesToRelease_loop_mono(1))
  next
    case False
    with Cons.prems have "p \<in> set ps" by simp
    from Cons.IH [OF this Cons.prems(2,3)] show ?thesis
      by (auto split: option.splits)
  qed
qed

lemma getPackagesToRelease_loop_missing:
  "p \<in> set ps \<Longrightarrow> cpp (path p) = Some cs \<Longrightarrow> cs \<noteq> [] \<Longrightarrow> falsy_opt (map_of mv (path p)) \<Longrightarrow>
   path p \<in> set (snd (getPackagesToRelease_loop mv cpp ps (ptr, ms)))"
proof (induction ps arbitrary: ptr ms)
  case Nil
  then show ?case by simp
next
  case (Cons a ps)
  show ?case
  proof (cases "a = p")
    case True
    then show ?thesis
      using Cons.prems(2,3,4) by (simp add: getPackagesToRelease_loop_mono(2))
  next
    case False
    with Cons.prems have "p \<in> set ps" by simp
    from Cons.IH [OF this Cons.prems(2,3,4)] show ?thesis
      by (auto split: option.splits)
  qed
qed

lemma getPackagesToRelease_missing_map_of:
  "map_of (getPackagesToRelease_missing hv ms ptr) k =
     (if k \<in> set ms then map_option (\<lambda>d. d\<lparr>lastVersion := map_of hv k\<rparr>) (map_of ptr k)
      else map_of ptr k)"
  by (induction ms arbitrary: ptr) (auto simp: map_of_map_entry split: option.splits)

lemma getPackagesToRelease_missing_distinct:
  "distinct (map fst ptr) \<Longrightarrow> distinct (map fst (getPackagesToRelease_missing hv ms ptr))"
  by (induction ms arbitrary: ptr) (auto simp: distinct_map_entry)

lemma getPackagesToRelease_missing_keys:
  "fst ` set (getPackagesToRelease_missing hv ms ptr) = fst ` set ptr"
  by (induction ms arbitrary: ptr) (auto simp: dom_map_entry)


text \<open>
  Claim C5. For a configured package with at least one attributable commit whose path is
  absent from the manifest at the resolved reference, the resolver records the path as
  missing in the main pass, and the run is not aborted: the result has an entry for the
  package, and the \<^verbatim>\<open>lastVersion\<close> of every such entry is the value of the manifest at the
  live tip for the path, undefined (\<open>None\<close>) when it is absent there too.
\<close>

theorem getPackagesToRelease_missing_version:
  assumes cfg: "getConfigJson e = Inr cfg"
    and ref: "getManifestVersions e sha = Inr (manifestVersions, atSha)"
    and tip: "getManifestJson e = Inr headManifestVersions"
    and pkg: "p \<in> set (parsedPackages cfg)"
    and split: "cs_split e (map path (parsedPackages cfg)) cs (path p) = Some pcs"
    and attributable: "pcs \<noteq> []"
    and absent: "map_of manifestVersions (path p) = None"
  shows "path p \<in> set (snd (getPackagesToRelease_loop manifestVersions
             (cs_split e (map path (parsedPackages cfg)) cs) (parsedPackages cfg) ([], []))) \<and>
         (\<exists>result. getPackagesToRelease e cs sha = Inr result \<and>
            (\<exists>d \<in> set result. path (prd_package d) = path p) \<and>
            (\<forall>d \<in> set result. path (prd_package d) = path p \<longrightarrow>
               lastVersion d = map_of headManifestVersions (path p)))"
proof -
  let ?cpp = "cs_split e (map path (parsedPackages cfg)) cs"
  let ?loop = "getPackagesToRelease_loop manifestVersions ?cpp (parsedPackages cfg) ([], [])"
  obtain ptr ms where loop: "?loop = (ptr, ms)"
    by (cases ?loop)
  let ?final = "getPackagesToRelease_missing headManifestVersions ms ptr"
  have falsy: "falsy_opt (map_of manifestVersions (path p))"
    using absent by (simp add: falsy_opt_def)
  have missing: "path p \<in> set ms"
    using getPackagesToRelease_loop_missing [where cpp = ?cpp and mv = manifestVersions and ptr = "[]" and ms = "[]",
        OF pkg split attributable falsy] loop by simp
  have key: "path p \<in> fst ` set ptr"
    using getPackagesToRelease_loop_candidate [where cpp = ?cpp and mv = manifestVersions and ptr = "[]" and ms = "[]",
        OF pkg split attributable] loop by simp
  have dist: "distinct (map fst ptr)"
    using getPackagesToRelease_loop_distinct [where ptr = "[]" and mv = manifestVersions and cpp = ?cpp
        and ps = "parsedPackages cfg" and ms = "[]"] loop by simp
  have keyed: "path (prd_package d) = k" if "map_of ptr k = Some d" for k d
    using getPackagesToRelease_loop_keyed [where ptr = "[]" and mv = manifestVersions and cpp = ?cpp
        and ps = "parsedPackages cfg" and ms = "[]" and k = k and d = d] loop that
    by simp
  have dist': "distinct (map fst ?final)"
    using dist by (rule getPackagesToRelease_missing_distinct)
  have final: "path (prd_package d) = k \<and>
               (k \<in> set ms \<longrightarrow> lastVersion d = map_of headManifestVersions k)"
    if "(k, d) \<in> set ?final" for k d
  proof -
    from that dist' have "map_of ?final k = Some d" by simp
    then show ?thesis
      using keyed [of k] by (auto simp: getPackagesToRelease_missing_map_of split: if_splits)
  qed
  have result: "getPackagesToRelease e cs sha = Inr (map snd ?final)"
    using cfg ref tip loop missing
    by (auto simp: getPackagesToRelease_def getManifestVersions_false_def)
  have ex: "\<exists>d \<in> set (map snd ?final). path (prd_package d) = path p"
  proof -
    from key have "path p \<in> fst ` set ?final" by (simp add: getPackagesToRelease_missing_keys)
    then obtain d where "(path p, d) \<in> set ?final" by auto
    with final [OF this] show ?thesis by force
  qed
  have all: "\<forall>d \<in> set (map snd ?final). path (prd_package d) = path p \<longrightarrow>
               lastVersion d = map_of headManifestVersions (path p)"
    using final missing by auto
  show ?thesis
    using missing loop result ex all by simp
qed


theorem getPackagesToRelease_missing_version_witness:
  "path (parsePackage ex_config (''b'', ex_pkgcfg)) \<in>
     set (snd (getPackagesToRelease_loop ex_old_manifest
             (cs_split (ex_env ex_manifest ex_old_manifest [''b/package.json''] ex_created)
                (map path (parsedPackages ex_cfg)) [ex_commit [''b/package.json'']])
             (parsedPackages ex_cfg) ([], []))) \<and>
   (\<exists>result. getPackagesToRelease (ex_env ex_manifest ex_old_manifest [''b/package.json''] ex_created)
                [ex_commit [''b/package.json'']] (Some ''abc'') = Inr result \<and>
      (\<exists>d \<in> set result. path (prd_package d) = ''b'') \<and>
      (\<forall>d \<in> set result. path (prd_package d) = ''b'' \<longrightarrow> lastVersion d = Some (JStr ''2.0.0'')))"
proof -
  let ?e = "ex_env ex_manifest ex_old_manifest [''b/package.json''] ex_created"
  let ?p = "parsePackage ex_config (''b'', ex_pkgcfg)"
  let ?c = "ex_commit [''b/package.json'']"
  have cfg: "getConfigJson ?e = Inr ex_cfg"
    by (simp add: getConfigJson_def getFileJson_def ex_env_def ex_cfg_def)
  have ref: "getManifestVersions ?e (Some ''abc'') = Inr (ex_old_manifest, ''abc'')"
    by (simp add: getManifestVersions_def getManifestJson_sha_def getFileJson_sha_def
          ex_env_def ex_manifest_file_def)
  have tip: "getManifestJson ?e = Inr ex_manifest"
    by (simp add: getManifestJson_def getFileJson_def ex_env_def ex_manifest_file_def)
  have pkg: "?p \<in> set (parsedPackages ex_cfg)"
    by (simp add: ex_cfg_def ex_config_def)
  have split: "cs_split ?e (map path (parsedPackages ex_cfg)) [?c] (path ?p) = Some [?c]"
    by (simp add: ex_env_def ex_split_def ex_commit_def parsePackage_def)
  have attributable: "[?c] \<noteq> []"
    by simp
  have absent: "map_of ex_old_manifest (path ?p) = None"
    by (simp add: parsePackage_def ex_old_manifest_def)
  have b: "path ?p = ''b''"
    by (simp add: parsePackage_def)
  have v: "map_of ex_manifest ''b'' = Some (JStr ''2.0.0'')"
    by (simp add: ex_manifest_def)
  show ?thesis
    using getPackagesToRelease_missing_version [OF cfg ref tip pkg split attributable absent]
    unfolding b v .
qed

subsection \<open>The candidates of the propagation pass\<close>

lemma depends_on_trans:
  "depends_on g b c \<Longrightarrow> depends_on g c a \<Longrightarrow> depends_on g b a"
  by (induction rule: depends_on.induct) (auto intro: depends_on.path)

lemma new_dependents_depends:
  assumes "x \<in> set (new_dependents g acc)"
  shows "x \<notin> set acc \<and> (\<exists>a \<in> set acc. depends_on g x a)"
proof -
  from assms obtain node where n: "node \<in> set g" "x = node_name node" "node_name node \<notin> set acc"
      "depends_on_one_of acc node"
    by (auto simp: new_dependents_def)
  then obtain d r where "(d, r) \<in> set (localDependencies node)" "d \<in> set acc"
    by (auto simp: depends_on_one_of_def list_ex_iff)
  with n show ?thesis
    by (auto intro: depends_on.edge)
qed


lemma collectDependents_sound:
  "x \<in> set (collectDependents g acc) \<Longrightarrow> x \<in> set acc \<or> (\<exists>a \<in> set acc. depends_on g x a)"
proof (induction g acc rule: collectDependents.induct)
  case (1 g acc)
  show ?case
  proof (cases "new_dependents g acc = []")
    case True
    with "1.prems" show ?thesis
      by (subst (asm) collectDependents.simps) simp
  next
    case False
    with "1.prems" have "x \<in> set (collectDependents g (acc @ new_dependents g acc))"
      by (subst (asm) collectDependents.simps) simp
    from "1.IH" [OF False this]
    consider "x \<in> set acc" | "x \<in> set (new_dependents g acc)"
      | a where "a \<in> set acc" "depends_on g x a"
      | a where "a \<in> set (new_dependents g acc)" "depends_on g x a"
      by auto
    then show ?thesis
    proof cases
      case 1
      then show ?thesis by simp
    next
      case 2
      then show ?thesis using new_dependents_depends by blast
    next
      case 3
      then show ?thesis by blast
    next
      case 4
      then show ?thesis using new_dependents_depends depends_on_trans by blast
    qed
  qed
qed

lemma collectDependents_mono: "x \<in> set acc \<Longrightarrow> x \<in> set (collectDependents g acc)"
proof (induction g acc rule: collectDependents.induct)
  case (1 g acc)
  show ?case
  proof (cases "new_dependents g acc = []")
    case True
    with "1.prems" show ?thesis
      by (subst collectDependents.simps) simp
  next
    case False
    with "1.prems" "1.IH" show ?thesis
      by (subst collectDependents.simps) simp
  qed
qed

lemma collectDependents_closed:
  "node \<in> set g \<Longrightarrow> (d, r) \<in> set (localDependencies node) \<Longrightarrow>
   d \<in> set (collectDependents g acc) \<Longrightarrow> node_name node \<in> set (collectDependents g acc)"
proof (induction g acc rule: collectDependents.induct)
  case (1 g acc)
  show ?case
  proof (cases "new_dependents g acc = []")
    case True
    with "1.prems"(3) have d: "d \<in> set acc"
      by (subst (asm) collectDependents.simps) simp
    have "node_name node \<in> set acc"
    proof (rule ccontr)
      assume "node_name node \<notin> set acc"
      with "1.prems"(1,2) d have "node_name node \<in> set (new_dependents g acc)"
        by (force simp: new_dependents_def depends_on_one_of_def list_ex_iff)
      with True show False by simp
    qed
    with True show ?thesis
      by (subst collectDependents.simps) simp
  next
    case False
    with "1.prems"(3) have "d \<in> set (collectDependents g (acc @ new_dependents g acc))"
      by (subst (asm) collectDependents.simps) simp
    from "1.IH" [OF False "1.prems"(1,2) this] False show ?thesis
      by (subst collectDependents.simps) simp
  qed
qed

lemma collectDependents_complete:
  "depends_on g x a \<Longrightarrow> a \<in> set (collectDependents g acc) \<Longrightarrow> x \<in> set (collectDependents g acc)"
  by (induction rule: depends_on.induct) (auto intro: collectDependents_closed)

lemma collectDependents_iff:
  "x \<in> set (collectDependents g acc) \<longleftrightarrow> x \<in> set acc \<or> (\<exists>a \<in> set acc. depends_on g x a)"
  using collectDependents_sound collectDependents_mono collectDependents_complete by blast

lemma collectPackages_iff:
  "node \<in> set (collectPackages g isCandidate) \<longleftrightarrow>
     node \<in> set g \<and>
     (\<exists>c \<in> set g. isCandidate c \<and>
        (node_name node = node_name c \<or> depends_on g (node_name node) (node_name c)))"
  by (auto simp: collectPackages_def collectDependents_iff)


subsection \<open>Versions, the runner and the order of processing\<close>

lemma updatesVersions_loop_invalid:
  "set (snd (updatesVersions_loop inc rp ns (uv, bad))) =
     set bad \<union> {node_name n | n. n \<in> set ns \<and> new_version inc rp n = None}"
  by (induction ns arbitrary: uv bad) (auto simp: new_version_def split: option.splits)

lemma updatesVersions_loop_other:
  "k \<notin> node_name ` set ns \<Longrightarrow>
   map_of (fst (updatesVersions_loop inc rp ns (uv, bad))) k = map_of uv k"
  by (induction ns arbitrary: uv bad) (auto simp: update_conv' split: option.splits)

lemma updatesVersions_loop_version:
  "n \<in> set ns \<Longrightarrow> distinct (map node_name ns) \<Longrightarrow>
   map_of (fst (updatesVersions_loop inc rp ns (uv, bad))) (node_name n) =
     (case new_version inc rp n of None \<Rightarrow> map_of uv (node_name n) | Some v \<Rightarrow> Some v)"
proof (induction ns arbitrary: uv bad)
  case Nil
  then show ?case by simp
next
  case (Cons a ns)
  show ?case
  proof (cases "a = n")
    case True
    with Cons.prems(2) have "node_name n \<notin> node_name ` set ns" by auto
    then show ?thesis
      using True
      by (simp add: updatesVersions_loop_other new_version_def update_conv' split: option.splits)
  next
    case False
    with Cons.prems have n: "n \<in> set ns" and d: "distinct (map node_name ns)"
      and ne: "node_name a \<noteq> node_name n"
      by auto
    show ?thesis
      using Cons.IH [OF n d] ne
      by (simp add: update_conv' split: option.splits)
  qed
qed

lemma updateLocalDependency_other:
  "k \<noteq> r_name r \<Longrightarrow>
   map_of (dependencies (updateLocalDependency p r v s)) k = map_of (dependencies p) k"
  by (simp add: updateLocalDependency_def update_conv')

lemma updateLocalDependency_local:
  "map_of (dependencies p) k = map_of (dependencies p') k \<Longrightarrow>
   map_of (dependencies (updateLocalDependency p r v s)) k =
     map_of (dependencies (updateLocalDependency p' r v s)) k"
  by (simp add: updateLocalDependency_def update_conv')

lemma updateLocalDependency_range:
  "r_type r = ''range'' \<Longrightarrow>
   map_of (dependencies (updateLocalDependency p r v s)) (r_name r) = Some (s @ v)"
  by (simp add: updateLocalDependency_def update_conv')

lemma updateLocalDependency_not_range:
  "r_type r \<noteq> ''range'' \<Longrightarrow> updateLocalDependency p r v s = p"
  by (simp add: updateLocalDependency_def)

lemma runner_loop_frame:
  "name (runner_loop uv ds p) = name p \<and> version (runner_loop uv ds p) = version p \<and>
   location (runner_loop uv ds p) = location p"
  by (induction ds arbitrary: p)
     (auto simp: updateLocalDependency_def split: option.splits)

text \<open>
  The dependency \<open>k\<close> of a package after the loop of the runner: it is handed to
  \<^verbatim>\<open>updateLocalDependency\<close> when it is a local dependency whose target has a new version
  that is not empty and whose reference is no directory, and is left as it was otherwise.
\<close>

lemma runner_loop_dependencies:
  "distinct (map fst ds) \<Longrightarrow> list_all (\<lambda>dr. r_name (snd dr) = fst dr) ds \<Longrightarrow>
   map_of (dependencies (runner_loop uv ds p)) k =
     (case map_of ds k of
        None \<Rightarrow> map_of (dependencies p) k
      | Some r \<Rightarrow>
          (case map_of uv k of
             None \<Rightarrow> map_of (dependencies p) k
           | Some v \<Rightarrow>
               if v \<noteq> [] \<and> r_type r \<noteq> ''directory''
               then map_of (dependencies (updateLocalDependency p r v ''^'')) k
               else map_of (dependencies p) k))"
proof (induction ds arbitrary: p)
  case Nil
  then show ?case by simp
next
  case (Cons a ds)
  obtain d r where a: "a = (d, r)" by (cases a)
  from Cons.prems a have dist: "distinct (map fst ds)" and fresh: "map_of ds d = None"
    and names: "list_all (\<lambda>dr. r_name (snd dr) = fst dr) ds" and rn: "r_name r = d"
    by (auto simp: map_of_eq_None_iff)
  let ?p1 = "case map_of uv d of
               None \<Rightarrow> p
             | Some v \<Rightarrow>
                 if v \<noteq> [] \<and> r_type r \<noteq> ''directory''
                 then updateLocalDependency p r v ''^'' else p"
  have step: "runner_loop uv (a # ds) p = runner_loop uv ds ?p1"
    by (simp add: a)
  note IH = Cons.IH [OF dist names, of ?p1]
  show ?case
  proof (cases "k = d")
    case True
    with IH fresh have "map_of (dependencies (runner_loop uv ds ?p1)) k = map_of (dependencies ?p1) k"
      by simp
    with True a show ?thesis
      by (simp only: step) (simp split: option.splits)
  next
    case False
    with rn have same: "map_of (dependencies ?p1) k = map_of (dependencies p) k"
      by (simp add: updateLocalDependency_other split: option.splits)
    have handed: "map_of (dependencies (updateLocalDependency ?p1 r' v' ''^'')) k =
                  map_of (dependencies (updateLocalDependency p r' v' ''^'')) k" for r' v'
      using same by (rule updateLocalDependency_local)
    from False a have "map_of (a # ds) k = map_of ds k"
      by simp
    with IH show ?thesis
      by (simp only: step same handed)
  qed
qed

lemma graph_get_node:
  "distinct (map node_name g) \<Longrightarrow> n \<in> set g \<Longrightarrow> graph_get g (node_name n) = Some n"
  unfolding graph_get_def by (induction g) auto

lemma mset_topological_order: "mset (topological_order g ps) = mset ps"
proof (induction g ps rule: topological_order.induct)
  case (1 g)
  then show ?case by simp
next
  case (2 g p ps)
  have "next_package g p ps \<in> set (p # ps)"
  proof (cases "filter (ready g (p # ps)) (p # ps)")
    case Nil
    then show ?thesis by (simp add: next_package_def)
  next
    case (Cons q qs)
    then have "q \<in> set (filter (ready g (p # ps)) (p # ps))" by simp
    then have "q \<in> set (p # ps)" by (simp only: set_filter) blast
    with Cons show ?thesis by (simp add: next_package_def)
  qed
  then have restore: "add_mset (next_package g p ps) (mset (remove1 (next_package g p ps) (p # ps)))
               = mset (p # ps)"
    by (simp only: mset_remove1) simp
  have "mset (topological_order g (p # ps)) =
          add_mset (next_package g p ps)
            (mset (topological_order g (remove1 (next_package g p ps) (p # ps))))"
    by (simp del: remove1.simps)
  also have "\<dots> = add_mset (next_package g p ps) (mset (remove1 (next_package g p ps) (p # ps)))"
    by (simp only: "2.IH")
  finally show ?case
    by (simp only: restore)
qed

lemma update_fresh: "k \<notin> fst ` set acc \<Longrightarrow> AList.update k v acc = acc @ [(k, v)]"
  by (induction acc) auto

lemma foldl_update_distinct:
  "distinct (map fst (acc @ es)) \<Longrightarrow>
   foldl (\<lambda>m kv. AList.update (fst kv) (snd kv) m) acc es = acc @ es"
proof (induction es arbitrary: acc)
  case Nil
  then show ?case by simp
next
  case (Cons e es)
  from Cons.prems have "fst e \<notin> fst ` set acc" by auto
  then have u: "AList.update (fst e) (snd e) acc = acc @ [e]"
    by (simp add: update_fresh)
  from Cons.prems have "distinct (map fst ((acc @ [e]) @ es))" by simp
  from Cons.IH [OF this] u show ?case by simp
qed

lemma Map_new_distinct: "distinct (map fst es) \<Longrightarrow> Map_new es = es"
  using foldl_update_distinct [of "[]" es] by (simp add: Map_new_def)




lemma wf_graph_node:
  "wf_graph g \<Longrightarrow> n \<in> set g \<Longrightarrow>
   distinct (map fst (localDependencies n)) \<and>
   list_all (\<lambda>dr. r_name (snd dr) = fst dr) (localDependencies n)"
  by (simp add: wf_graph_def list_all_iff)

lemma updatesWithDependents_subset: "n \<in> set (updatesWithDependents rp g) \<Longrightarrow> n \<in> set g"
  by (simp add: updatesWithDependents_def collectPackages_def)

lemma updatesWithDependents_distinct:
  "wf_graph g \<Longrightarrow> distinct (map node_name (updatesWithDependents rp g)) \<and>
                  distinct (map node_location (updatesWithDependents rp g))"
  by (simp add: wf_graph_def updatesWithDependents_def collectPackages_def distinct_map_filter)

lemma invalidVersions_iff:
  assumes "wf_graph g" and "n \<in> set (updatesWithDependents rp g)"
  shows "node_name n \<in> set (invalidVersions inc rp g) \<longleftrightarrow> new_version inc rp n = None"
proof -
  have "inj_on node_name (set (updatesWithDependents rp g))"
    using updatesWithDependents_distinct [OF assms(1), of rp] by (simp add: distinct_map)
  then have inj: "m = n" if "m \<in> set (updatesWithDependents rp g)" "node_name m = node_name n" for m
    using that(2) that(1) assms(2) by (rule inj_onD)
  have "node_name n \<in> set (invalidVersions inc rp g) \<longleftrightarrow>
          (\<exists>m. m \<in> set (updatesWithDependents rp g) \<and> new_version inc rp m = None \<and>
               node_name n = node_name m)"
    by (simp add: invalidVersions_def updatesVersions_loop_invalid) blast
  also have "\<dots> \<longleftrightarrow> new_version inc rp n = None"
    using assms(2) inj by metis
  finally show ?thesis .
qed

lemma updatesVersions_candidate:
  assumes "wf_graph g" and "n \<in> set (updatesWithDependents rp g)"
  shows "map_of (updatesVersions inc rp g) (node_name n) = new_version inc rp n"
  using updatesVersions_loop_version [OF assms(2), of inc rp "[]" "[]"]
    updatesWithDependents_distinct [OF assms(1), of rp]
  by (simp add: updatesVersions_def split: option.splits)

lemma updatesVersions_other:
  "k \<notin> node_name ` set (updatesWithDependents rp g) \<Longrightarrow> map_of (updatesVersions inc rp g) k = None"
  by (simp add: updatesVersions_def updatesVersions_loop_other)


lemma runner_node:
  assumes "wf_graph g" and "n \<in> set g"
  shows "name (runner uv g (pkg n)) = node_name n"
    and "location (runner uv g (pkg n)) = node_location n"
    and "version (runner uv g (pkg n)) =
           (case map_of uv (node_name n) of None \<Rightarrow> node_version n | Some v \<Rightarrow> v)"
    and "map_of (dependencies (runner uv g (pkg n))) k =
           (case map_of (localDependencies n) k of
              None \<Rightarrow> map_of (dependencies (pkg n)) k
            | Some r \<Rightarrow>
                (case map_of uv k of
                   None \<Rightarrow> map_of (dependencies (pkg n)) k
                 | Some v \<Rightarrow>
                     if v \<noteq> [] \<and> r_type r \<noteq> ''directory''
                     then map_of (dependencies (updateLocalDependency (pkg n) r v ''^'')) k
                     else map_of (dependencies (pkg n)) k))"
proof -
  let ?p1 = "case map_of uv (name (pkg n)) of None \<Rightarrow> pkg n | Some v \<Rightarrow> (pkg n)\<lparr>version := v\<rparr>"
  have nm: "name ?p1 = node_name n"
    by (simp add: node_name_def split: option.splits)
  from assms have "graph_get g (node_name n) = Some n"
    by (simp add: graph_get_node wf_graph_def)
  with nm have r: "runner uv g (pkg n) = runner_loop uv (localDependencies n) ?p1"
    by (simp add: runner_def Let_def)
  show "name (runner uv g (pkg n)) = node_name n"
    by (simp only: r runner_loop_frame nm)
  show "location (runner uv g (pkg n)) = node_location n"
    by (simp add: r runner_loop_frame node_location_def split: option.splits)
  show "version (runner uv g (pkg n)) =
           (case map_of uv (node_name n) of None \<Rightarrow> node_version n | Some v \<Rightarrow> v)"
    by (simp add: r runner_loop_frame node_name_def node_version_def split: option.splits)
  have deps: "map_of (dependencies ?p1) k = map_of (dependencies (pkg n)) k"
    by (simp split: option.splits)
  have handed: "map_of (dependencies (updateLocalDependency ?p1 r' v' ''^'')) k =
                map_of (dependencies (updateLocalDependency (pkg n) r' v' ''^'')) k" for r' v'
    using deps by (rule updateLocalDependency_local)
  from wf_graph_node [OF assms]
  show "map_of (dependencies (runner uv g (pkg n))) k =
           (case map_of (localDependencies n) k of
              None \<Rightarrow> map_of (dependencies (pkg n)) k
            | Some r \<Rightarrow>
                (case map_of uv k of
                   None \<Rightarrow> map_of (dependencies (pkg n)) k
                 | Some v \<Rightarrow>
                     if v \<noteq> [] \<and> r_type r \<noteq> ''directory''
                     then map_of (dependencies (updateLocalDependency (pkg n) r v ''^'')) k
                     else map_of (dependencies (pkg n)) k))"
    by (simp only: r runner_loop_dependencies deps handed)
qed

text \<open>
  One local dependency edge of a package that the runner processes. The first three lemmas
  follow from the test of the runner alone; the last two use what
  \<^verbatim>\<open>updateLocalDependency\<close> does with the reference.
\<close>

lemma runner_edge_handed:
  assumes "wf_graph g" and "n \<in> set g" and "(d, r) \<in> set (localDependencies n)"
    and "map_of uv d = Some v" and "v \<noteq> []" and "r_type r \<noteq> ''directory''"
  shows "map_of (dependencies (runner uv g (pkg n))) d =
           map_of (dependencies (updateLocalDependency (pkg n) r v ''^'')) d"
proof -
  from wf_graph_node [OF assms(1,2)] assms(3) have "map_of (localDependencies n) d = Some r"
    by simp
  with assms(4,5,6) show ?thesis
    by (simp add: runner_node(4) [OF assms(1,2)])
qed

lemma runner_edge_directory:
  assumes "wf_graph g" and "n \<in> set g" and "(d, r) \<in> set (localDependencies n)"
    and "r_type r = ''directory''"
  shows "map_of (dependencies (runner uv g (pkg n))) d = map_of (dependencies (pkg n)) d"
proof -
  from wf_graph_node [OF assms(1,2)] assms(3) have "map_of (localDependencies n) d = Some r"
    by simp
  with assms(4) show ?thesis
    by (simp add: runner_node(4) [OF assms(1,2)] split: option.splits)
qed

lemma runner_edge_no_version:
  assumes "wf_graph g" and "n \<in> set g" and "(d, r) \<in> set (localDependencies n)"
    and "map_of uv d = None"
  shows "map_of (dependencies (runner uv g (pkg n))) d = map_of (dependencies (pkg n)) d"
proof -
  from wf_graph_node [OF assms(1,2)] assms(3) have "map_of (localDependencies n) d = Some r"
    by simp
  with assms(4) show ?thesis
    by (simp add: runner_node(4) [OF assms(1,2)])
qed

lemma runner_edge_range:
  assumes "wf_graph g" and "n \<in> set g" and "(d, r) \<in> set (localDependencies n)"
    and "map_of uv d = Some v" and "v \<noteq> []" and "r_type r = ''range''"
  shows "map_of (dependencies (runner uv g (pkg n))) d = Some (''^'' @ v)"
proof -
  from wf_graph_node [OF assms(1,2)] assms(3) have "r_name r = d"
    by (auto simp: list_all_iff)
  with updateLocalDependency_range [OF assms(6), of "pkg n" v "''^''"]
  have "map_of (dependencies (updateLocalDependency (pkg n) r v ''^'')) d = Some (''^'' @ v)"
    by simp
  moreover from assms(6) have "r_type r \<noteq> ''directory''"
    by simp
  ultimately show ?thesis
    using runner_edge_handed [OF assms(1,2,3,4,5)] by simp
qed

lemma runner_edge_not_range:
  assumes "wf_graph g" and "n \<in> set g" and "(d, r) \<in> set (localDependencies n)"
    and "r_type r \<noteq> ''range''"
  shows "map_of (dependencies (runner uv g (pkg n))) d = map_of (dependencies (pkg n)) d"
proof -
  from wf_graph_node [OF assms(1,2)] assms(3) have "map_of (localDependencies n) d = Some r"
    by simp
  with assms(4) show ?thesis
    by (simp add: runner_node(4) [OF assms(1,2)] updateLocalDependency_not_range
          split: option.splits)
qed


lemma set_topological_order: "set (topological_order g ps) = set ps"
  by (metis mset_topological_order set_mset_mset)

lemma runLernaVersion_unfold:
  "runLernaVersion inc rp g =
     Map_new (map (\<lambda>p. (location p, p))
       (map (runner (updatesVersions inc rp g) g)
          (topological_order g
             (map pkg (filter (\<lambda>node. node_name node \<notin> set (invalidVersions inc rp g))
                         (updatesWithDependents rp g))))))"
  by (simp add: runLernaVersion_def runTopologically_def updatesWithDependents_def
        updatesVersions_def invalidVersions_def Let_def case_prod_beta)

lemma valid_updates_set:
  assumes "wf_graph g"
  shows "set (filter (\<lambda>node. node_name node \<notin> set (invalidVersions inc rp g))
                (updatesWithDependents rp g)) =
         {n \<in> set (updatesWithDependents rp g). new_version inc rp n \<noteq> None}"
proof -
  have "node_name n \<notin> set (invalidVersions inc rp g) \<longleftrightarrow> new_version inc rp n \<noteq> None"
    if "n \<in> set (updatesWithDependents rp g)" for n
    using invalidVersions_iff [OF assms that] by simp
  then show ?thesis
    by (simp only: set_filter) blast
qed

lemma runLernaVersion_entries:
  assumes "wf_graph g"
  shows "distinct (map fst (runLernaVersion inc rp g))"
    and "set (runLernaVersion inc rp g) =
           (\<lambda>n. (node_location n, runner (updatesVersions inc rp g) g (pkg n))) `
             {n \<in> set (updatesWithDependents rp g). new_version inc rp n \<noteq> None}"
proof -
  let ?U = "updatesWithDependents rp g"
  let ?uv = "updatesVersions inc rp g"
  let ?valid = "filter (\<lambda>node. node_name node \<notin> set (invalidVersions inc rp g)) ?U"
  let ?l = "topological_order g (map pkg ?valid)"
  let ?entries = "map (\<lambda>p. (location p, p)) (map (runner ?uv g) ?l)"
  note run = runLernaVersion_unfold [of inc rp g]
  have valid_g: "n \<in> set g" if "n \<in> set ?valid" for n
    using that updatesWithDependents_subset [of n rp g] by simp
  have l: "set ?l = pkg ` set ?valid"
    by (simp only: set_topological_order set_map)
  have loc: "location (runner ?uv g p) = location p" if "p \<in> set ?l" for p
  proof -
    from that l obtain n where n: "n \<in> set ?valid" "p = pkg n" by blast
    from runner_node(2) [OF assms valid_g [OF n(1)], of ?uv] n(2)
    show ?thesis by (simp add: node_location_def)
  qed
  have keys: "map fst ?entries = map location ?l"
    using loc by (simp add: comp_def)
  have "mset (map location ?l) = mset (map location (map pkg ?valid))"
    unfolding mset_map mset_topological_order ..
  also have "map location (map pkg ?valid) = map node_location ?valid"
    by (simp add: node_location_def)
  finally have perm: "mset (map location ?l) = mset (map node_location ?valid)" .
  have "distinct (map node_location ?valid)"
    using updatesWithDependents_distinct [OF assms, of rp] by (simp add: distinct_map_filter)
  with perm have "distinct (map location ?l)"
    by (simp only: mset_eq_imp_distinct_iff [OF perm])
  with keys have dist: "distinct (map fst ?entries)"
    by (simp only:)
  then have eq: "runLernaVersion inc rp g = ?entries"
    by (simp only: run Map_new_distinct)
  show "distinct (map fst (runLernaVersion inc rp g))"
    by (simp only: eq dist)
  have "set ?entries = (\<lambda>p. (location (runner ?uv g p), runner ?uv g p)) ` set ?l"
    by (simp only: set_map image_image)
  also have "\<dots> = (\<lambda>n. (location (runner ?uv g (pkg n)), runner ?uv g (pkg n))) ` set ?valid"
    by (simp only: l image_image)
  also have "\<dots> = (\<lambda>n. (node_location n, runner ?uv g (pkg n))) ` set ?valid"
  proof (rule image_cong [OF refl])
    fix n assume "n \<in> set ?valid"
    from runner_node(2) [OF assms valid_g [OF this], of ?uv]
    show "(location (runner ?uv g (pkg n)), runner ?uv g (pkg n)) =
          (node_location n, runner ?uv g (pkg n))"
      by simp
  qed
  finally show "set (runLernaVersion inc rp g) =
           (\<lambda>n. (node_location n, runner ?uv g (pkg n))) `
             {n \<in> set ?U. new_version inc rp n \<noteq> None}"
    by (simp only: eq valid_updates_set [OF assms])
qed


subsection \<open>The output of the propagation pass\<close>

lemma runLernaVersion_lookup:
  assumes "wf_graph g" and "n \<in> set (updatesWithDependents rp g)" and "new_version inc rp n \<noteq> None"
  shows "map_of (runLernaVersion inc rp g) (node_location n) =
           Some (runner (updatesVersions inc rp g) g (pkg n))"
proof -
  have "(node_location n, runner (updatesVersions inc rp g) g (pkg n)) \<in> set (runLernaVersion inc rp g)"
    using assms(2,3) by (simp only: runLernaVersion_entries(2) [OF assms(1)]) blast
  with runLernaVersion_entries(1) [OF assms(1), of inc rp] show ?thesis
    by simp
qed

lemma runLernaVersion_entry:
  assumes "wf_graph g" and "(loc, q) \<in> set (runLernaVersion inc rp g)"
  obtains n where "n \<in> set (updatesWithDependents rp g)" and "n \<in> set g"
    and "new_version inc rp n \<noteq> None"
    and "loc = node_location n" and "q = runner (updatesVersions inc rp g) g (pkg n)"
    and "name q = node_name n"
proof -
  from assms(2) obtain n where n: "n \<in> set (updatesWithDependents rp g)"
      "new_version inc rp n \<noteq> None" "loc = node_location n"
      "q = runner (updatesVersions inc rp g) g (pkg n)"
    by (simp only: runLernaVersion_entries(2) [OF assms(1)]) blast
  from n(1) have g: "n \<in> set g" by (rule updatesWithDependents_subset)
  from runner_node(1) [OF assms(1) g, of "updatesVersions inc rp g"] n(4)
  have "name q = node_name n" by simp
  with n g that show ?thesis by blast
qed

lemma wf_graph_same_name:
  "wf_graph g \<Longrightarrow> m \<in> set g \<Longrightarrow> n \<in> set g \<Longrightarrow> node_name m = node_name n \<Longrightarrow> m = n"
  by (meson distinct_map inj_onD wf_graph_def)

lemma wf_graph_same_location:
  "wf_graph g \<Longrightarrow> m \<in> set g \<Longrightarrow> n \<in> set g \<Longrightarrow> node_location m = node_location n \<Longrightarrow> m = n"
  by (meson distinct_map inj_onD wf_graph_def)

lemma updatesWithDependents_iff:
  "n \<in> set (updatesWithDependents rp g) \<longleftrightarrow>
     n \<in> set g \<and>
     (\<exists>c \<in> set g. has rp (node_location c) \<and>
        (node_name n = node_name c \<or> depends_on g (node_name n) (node_name c)))"
  by (simp only: updatesWithDependents_def collectPackages_iff)

text \<open>
  Claim C6. In a well-formed graph, a package that is not directly updated and has no path
  of local dependency edges to a directly updated package appears nowhere in the output of
  the propagation pass: no entry has its location, and no package of the output has its
  name.
\<close>

theorem unaffected_package_not_in_output:
  assumes wf: "wf_graph g" and n: "n \<in> set g"
    and not_updated: "\<not> has rp (node_location n)"
    and no_path: "\<forall>c \<in> set g. has rp (node_location c) \<longrightarrow>
                    \<not> depends_on g (node_name n) (node_name c)"
  shows "node_location n \<notin> fst ` set (runLernaVersion inc rp g) \<and>
         node_name n \<notin> (name \<circ> snd) ` set (runLernaVersion inc rp g)"
proof -
  have out: "n \<notin> set (updatesWithDependents rp g)"
  proof
    assume "n \<in> set (updatesWithDependents rp g)"
    then obtain c where c: "c \<in> set g" "has rp (node_location c)"
        "node_name n = node_name c \<or> depends_on g (node_name n) (node_name c)"
      by (simp only: updatesWithDependents_iff) blast
    with no_path have "node_name n = node_name c" by blast
    with wf n c(1) have "n = c" by (rule wf_graph_same_name)
    with c(2) not_updated show False by simp
  qed
  have "loc \<noteq> node_location n \<and> name q \<noteq> node_name n"
    if "(loc, q) \<in> set (runLernaVersion inc rp g)" for loc q
  proof -
    from wf that obtain m where m: "m \<in> set (updatesWithDependents rp g)" "m \<in> set g"
        "loc = node_location m" "name q = node_name m"
      by (rule runLernaVersion_entry)
    from m(1) out have "m \<noteq> n" by blast
    with wf_graph_same_name [OF wf m(2) n] wf_graph_same_location [OF wf m(2) n] m(3,4)
    show ?thesis by auto
  qed
  then show ?thesis
    by fastforce
qed

theorem unaffected_package_not_in_output_witness:
  "''d/package.json'' \<notin> fst ` set (runLernaVersion inc_patch_plain ex_rp ex_chain) \<and>
   ''pkgD'' \<notin> (name \<circ> snd) ` set (runLernaVersion inc_patch_plain ex_rp ex_chain)"
proof -
  have wf: "wf_graph ex_chain"
    by code_simp
  have n: "ex_chainD \<in> set ex_chain"
    by (simp add: ex_chain_def)
  have not_updated: "\<not> has ex_rp (node_location ex_chainD)"
    by code_simp
  have dn: "node_name ex_chainD = ''pkgD''" and dl: "node_location ex_chainD = ''d/package.json''"
    by (simp_all add: node_name_def node_location_def ex_node_def ex_chainD_def ex_pkg_def)
  have "\<not> depends_on ex_chain (node_name ex_chainD) x" for x
  proof
    assume "depends_on ex_chain (node_name ex_chainD) x"
    then obtain node d r where "node \<in> set ex_chain" "node_name node = node_name ex_chainD"
        "(d, r) \<in> set (localDependencies node)"
      by (cases rule: depends_on.cases) auto
    then show False
      by (auto simp: ex_chain_def ex_chainB_def ex_chainD_def ex_node_def ex_pkgA_def ex_pkg_def
            node_name_def)
  qed
  then have no_path: "\<forall>c \<in> set ex_chain. has ex_rp (node_location c) \<longrightarrow>
                    \<not> depends_on ex_chain (node_name ex_chainD) (node_name c)"
    by blast
  from unaffected_package_not_in_output [OF wf n not_updated no_path, of inc_patch_plain]
  show ?thesis
    unfolding dn dl .
qed

text \<open>
  Claim C1. In a well-formed graph, let B be a package that is not directly updated and is a
  (transitive) dependent of a directly updated package A, with a version that can be
  incremented. Then the output has B with exactly the patch increment of its previous
  version; it has A with the version that A was given; and every local dependency of B that
  is not a directory reference, on a package of the output (A, or another dependent as in
  the chain pkgA, pkgB, pkgC), is what \<^verbatim>\<open>updateLocalDependency\<close> makes of it for the new
  version of that package and the prefix \<^verbatim>\<open>^\<close>: for a range, the caret constraint against
  the new version of that package.
\<close>

theorem dependent_patch_bump:
  assumes wf: "wf_graph g"
    and b: "b \<in> set g" and b_not_updated: "\<not> has rp (node_location b)"
    and a: "a \<in> set g" and a_updated: "has rp (node_location a)"
    and dependent: "depends_on g (node_name b) (node_name a)"
    and parsable: "inc (node_version b) = Some v"
  shows "\<exists>q qa. map_of (runLernaVersion inc rp g) (node_location b) = Some q \<and>
           name q = node_name b \<and> version q = v \<and>
           map_of (runLernaVersion inc rp g) (node_location a) = Some qa \<and>
           name qa = node_name a \<and> version qa = node_version a \<and>
           (\<forall>d r qd. (d, r) \<in> set (localDependencies b) \<longrightarrow> r_type r \<noteq> ''directory'' \<longrightarrow>
              qd \<in> snd ` set (runLernaVersion inc rp g) \<longrightarrow> name qd = d \<longrightarrow> version qd \<noteq> [] \<longrightarrow>
              map_of (dependencies q) d =
                map_of (dependencies (updateLocalDependency (pkg b) r (version qd) ''^'')) d \<and>
              (r_type r = ''range'' \<longrightarrow> map_of (dependencies q) d = Some (''^'' @ version qd)))"
proof -
  let ?uv = "updatesVersions inc rp g"
  let ?q = "runner ?uv g (pkg b)"
  let ?qa = "runner ?uv g (pkg a)"
  have bU: "b \<in> set (updatesWithDependents rp g)"
    using b a a_updated dependent by (simp only: updatesWithDependents_iff) blast
  have aU: "a \<in> set (updatesWithDependents rp g)"
    using a a_updated by (simp only: updatesWithDependents_iff) blast
  have nb: "new_version inc rp b = Some v"
    using b_not_updated parsable by (simp add: new_version_def)
  have na: "new_version inc rp a = Some (node_version a)"
    using a_updated by (simp add: new_version_def)
  have uvb: "map_of ?uv (node_name b) = Some v"
    using updatesVersions_candidate [OF wf bU, of inc] nb by simp
  have uva: "map_of ?uv (node_name a) = Some (node_version a)"
    using updatesVersions_candidate [OF wf aU, of inc] na by simp
  have q: "map_of (runLernaVersion inc rp g) (node_location b) = Some ?q"
    using runLernaVersion_lookup [OF wf bU, of inc] nb by simp
  have qa: "map_of (runLernaVersion inc rp g) (node_location a) = Some ?qa"
    using runLernaVersion_lookup [OF wf aU, of inc] na by simp
  have qn: "name ?q = node_name b" and qv: "version ?q = v"
    using runner_node(1,3) [OF wf b, of ?uv] uvb by simp_all
  have qan: "name ?qa = node_name a" and qav: "version ?qa = node_version a"
    using runner_node(1,3) [OF wf a, of ?uv] uva by simp_all
  have edges: "map_of (dependencies ?q) d =
                 map_of (dependencies (updateLocalDependency (pkg b) r (version qd) ''^'')) d \<and>
               (r_type r = ''range'' \<longrightarrow> map_of (dependencies ?q) d = Some (''^'' @ version qd))"
    if e: "(d, r) \<in> set (localDependencies b)" and t: "r_type r \<noteq> ''directory''"
      and o: "qd \<in> snd ` set (runLernaVersion inc rp g)" and nm: "name qd = d"
      and ne: "version qd \<noteq> []" for d r qd
  proof -
    from o obtain loc where "(loc, qd) \<in> set (runLernaVersion inc rp g)" by auto
    with wf obtain m where m: "m \<in> set (updatesWithDependents rp g)" "m \<in> set g"
        "new_version inc rp m \<noteq> None" "qd = runner ?uv g (pkg m)" "name qd = node_name m"
      by (rule runLernaVersion_entry)
    from m(3) obtain w where w: "new_version inc rp m = Some w" by auto
    with updatesVersions_candidate [OF wf m(1), of inc] have uvm: "map_of ?uv (node_name m) = Some w"
      by simp
    with runner_node(3) [OF wf m(2), of ?uv] m(4) have "version qd = w" by simp
    with uvm m(5) nm have uvd: "map_of ?uv d = Some (version qd)" by simp
    have handed: "map_of (dependencies ?q) d =
                    map_of (dependencies (updateLocalDependency (pkg b) r (version qd) ''^'')) d"
      using wf b e uvd ne t by (rule runner_edge_handed)
    have caret: "map_of (dependencies ?q) d = Some (''^'' @ version qd)" if "r_type r = ''range''"
      using wf b e uvd ne that by (rule runner_edge_range)
    from handed caret show ?thesis by blast
  qed
  from q qn qv qa qan qav edges show ?thesis by blast
qed

theorem dependent_patch_bump_witness:
  "\<exists>q. map_of (runLernaVersion inc_patch_plain ex_rp ex_chain) ''b/package.json'' = Some q \<and>
        name q = ''pkgB'' \<and> version q = ''2.2.3'' \<and>
        map_of (dependencies q) ''pkgA'' = Some ''^1.1.2''"
proof -
  let ?a = "ex_node ex_pkgA []"
  let ?r = "\<lparr> r_name = ''pkgA'', r_type = ''range'' \<rparr>"
  have wf: "wf_graph ex_chain"
    by code_simp
  have b: "ex_chainB \<in> set ex_chain"
    by (simp add: ex_chain_def)
  have b_not_updated: "\<not> has ex_rp (node_location ex_chainB)"
    by code_simp
  have a: "?a \<in> set ex_chain"
    by (simp add: ex_chain_def)
  have a_updated: "has ex_rp (node_location ?a)"
    by code_simp
  have an: "node_name ?a = ''pkgA''" and av: "node_version ?a = ''1.1.2''"
    and bn: "node_name ex_chainB = ''pkgB''" and bl: "node_location ex_chainB = ''b/package.json''"
    by (simp_all add: node_name_def node_version_def node_location_def ex_node_def ex_pkgA_def
          ex_chainB_def ex_pkg_def)
  have e: "(''pkgA'', ?r) \<in> set (localDependencies ex_chainB)"
    by (simp add: ex_chainB_def ex_node_def)
  have t: "r_type ?r \<noteq> ''directory''" and range: "r_type ?r = ''range''"
    by simp_all
  have "depends_on ex_chain (node_name ex_chainB) ''pkgA''"
    using b e by (rule depends_on.edge)
  then have dependent: "depends_on ex_chain (node_name ex_chainB) (node_name ?a)"
    by (simp only: an)
  have parsable: "inc_patch_plain (node_version ex_chainB) = Some ''2.2.3''"
    by code_simp
  from dependent_patch_bump [where inc = inc_patch_plain, OF wf b b_not_updated a a_updated dependent parsable]
  obtain q qa where q: "map_of (runLernaVersion inc_patch_plain ex_rp ex_chain) (node_location ex_chainB) = Some q"
      "name q = node_name ex_chainB" "version q = ''2.2.3''"
    and qa: "map_of (runLernaVersion inc_patch_plain ex_rp ex_chain) (node_location ?a) = Some qa"
      "name qa = node_name ?a" "version qa = node_version ?a"
    and edges: "\<And>d r qd. (d, r) \<in> set (localDependencies ex_chainB) \<Longrightarrow> r_type r \<noteq> ''directory'' \<Longrightarrow>
              qd \<in> snd ` set (runLernaVersion inc_patch_plain ex_rp ex_chain) \<Longrightarrow> name qd = d \<Longrightarrow>
              version qd \<noteq> [] \<Longrightarrow> r_type r = ''range'' \<Longrightarrow>
              map_of (dependencies q) d = Some (''^'' @ version qd)"
    by blast
  from qa(1) have "(node_location ?a, qa) \<in> set (runLernaVersion inc_patch_plain ex_rp ex_chain)"
    by (rule map_of_SomeD)
  then have "qa \<in> snd ` set (runLernaVersion inc_patch_plain ex_rp ex_chain)"
    by force
  from edges [OF e t this _ _ range] qa(2,3) an av
  have "map_of (dependencies q) ''pkgA'' = Some ''^1.1.2''"
    by simp
  with q bn bl show ?thesis
    by simp
qed

lemma runLernaVersion_chain:
  "map (\<lambda>lp. (name (snd lp), version (snd lp), dependencies (snd lp)))
     (runLernaVersion inc_patch_plain ex_rp ex_chain) =
     [(''pkgA'', ''1.1.2'', [(''foo'', ''^4.1.7'')]),
      (''pkgB'', ''2.2.3'', [(''pkgA'', ''^1.1.2''), (''ext'', ''^9.2.3'')]),
      (''pkgC'', ''3.3.4'', [(''pkgB'', ''^2.2.3''), (''ext'', ''^4.3.1'')])]"
  by code_simp

text \<open>
  Claim C7. In a well-formed graph, a candidate that is not directly updated and whose
  version cannot be incremented is recorded as invalid, gets no entry in the new versions,
  and is absent from the output. Every other candidate, one that has a new version, is
  still processed: it is in the output, as the runner leaves it, under its name and with
  its new version; each of its local dependencies that is a range on a package with a new
  version is the caret constraint against that version; and each of its local dependencies
  on a package without a new version, such as the invalid candidate, is left as it was.
\<close>

theorem invalid_version_isolated:
  assumes wf: "wf_graph g"
    and candidate: "n \<in> set (updatesWithDependents rp g)"
    and not_updated: "\<not> has rp (node_location n)"
    and invalid: "inc (node_version n) = None"
  shows "node_name n \<in> set (invalidVersions inc rp g) \<and>
         map_of (updatesVersions inc rp g) (node_name n) = None \<and>
         node_location n \<notin> fst ` set (runLernaVersion inc rp g) \<and>
         node_name n \<notin> (name \<circ> snd) ` set (runLernaVersion inc rp g) \<and>
         (\<forall>m \<in> set (updatesWithDependents rp g). \<forall>v. new_version inc rp m = Some v \<longrightarrow>
            map_of (updatesVersions inc rp g) (node_name m) = Some v \<and>
            (\<exists>q. map_of (runLernaVersion inc rp g) (node_location m) = Some q \<and>
                 q = runner (updatesVersions inc rp g) g (pkg m) \<and>
                 name q = node_name m \<and> version q = v \<and>
                 (\<forall>d r w. (d, r) \<in> set (localDependencies m) \<longrightarrow> r_type r = ''range'' \<longrightarrow>
                    map_of (updatesVersions inc rp g) d = Some w \<longrightarrow> w \<noteq> [] \<longrightarrow>
                    map_of (dependencies q) d = Some (''^'' @ w)) \<and>
                 (\<forall>d r. (d, r) \<in> set (localDependencies m) \<longrightarrow>
                    map_of (updatesVersions inc rp g) d = None \<longrightarrow>
                    map_of (dependencies q) d = map_of (dependencies (pkg m)) d)))"
proof -
  let ?uv = "updatesVersions inc rp g"
  have nv: "new_version inc rp n = None"
    using not_updated invalid by (simp add: new_version_def)
  have g: "n \<in> set g"
    using candidate by (rule updatesWithDependents_subset)
  have 1: "node_name n \<in> set (invalidVersions inc rp g)"
    using invalidVersions_iff [OF wf candidate, of inc] nv by simp
  have 2: "map_of ?uv (node_name n) = None"
    using updatesVersions_candidate [OF wf candidate, of inc] nv by simp
  have "loc \<noteq> node_location n \<and> name q \<noteq> node_name n"
    if "(loc, q) \<in> set (runLernaVersion inc rp g)" for loc q
  proof -
    from wf that obtain m where m: "m \<in> set g" "new_version inc rp m \<noteq> None"
        "loc = node_location m" "name q = node_name m"
      by (rule runLernaVersion_entry)
    from m(2) nv have "m \<noteq> n" by auto
    with wf_graph_same_name [OF wf m(1) g] wf_graph_same_location [OF wf m(1) g] m(3,4)
    show ?thesis by auto
  qed
  then have 3: "node_location n \<notin> fst ` set (runLernaVersion inc rp g) \<and>
         node_name n \<notin> (name \<circ> snd) ` set (runLernaVersion inc rp g)"
    by fastforce
  have 4: "map_of ?uv (node_name m) = Some v \<and>
            (\<exists>q. map_of (runLernaVersion inc rp g) (node_location m) = Some q \<and>
                 q = runner ?uv g (pkg m) \<and> name q = node_name m \<and> version q = v \<and>
                 (\<forall>d r w. (d, r) \<in> set (localDependencies m) \<longrightarrow> r_type r = ''range'' \<longrightarrow>
                    map_of ?uv d = Some w \<longrightarrow> w \<noteq> [] \<longrightarrow>
                    map_of (dependencies q) d = Some (''^'' @ w)) \<and>
                 (\<forall>d r. (d, r) \<in> set (localDependencies m) \<longrightarrow> map_of ?uv d = None \<longrightarrow>
                    map_of (dependencies q) d = map_of (dependencies (pkg m)) d))"
    if m: "m \<in> set (updatesWithDependents rp g)" and v: "new_version inc rp m = Some v" for m v
  proof -
    let ?q = "runner ?uv g (pkg m)"
    have mg: "m \<in> set g" using m by (rule updatesWithDependents_subset)
    have uvm: "map_of ?uv (node_name m) = Some v"
      using updatesVersions_candidate [OF wf m, of inc] v by simp
    have out: "map_of (runLernaVersion inc rp g) (node_location m) = Some ?q"
      using runLernaVersion_lookup [OF wf m, of inc] v by simp
    have nm: "name ?q = node_name m" and vs: "version ?q = v"
      using runner_node(1,3) [OF wf mg, of ?uv] uvm by simp_all
    have caret: "map_of (dependencies ?q) d = Some (''^'' @ w)"
      if "(d, r) \<in> set (localDependencies m)" "r_type r = ''range''" "map_of ?uv d = Some w" "w \<noteq> []"
      for d r w
      using wf mg that(1,3,4,2) by (rule runner_edge_range)
    have kept: "map_of (dependencies ?q) d = map_of (dependencies (pkg m)) d"
      if "(d, r) \<in> set (localDependencies m)" "map_of ?uv d = None" for d r
      using wf mg that by (rule runner_edge_no_version)
    from uvm out nm vs caret kept show ?thesis by blast
  qed
  from 1 2 3 4 show ?thesis by blast
qed

theorem invalid_version_isolated_witness:
  "''pkgB'' \<in> set (invalidVersions inc_patch_plain ex_rp ex_siblings) \<and>
   map_of (updatesVersions inc_patch_plain ex_rp ex_siblings) ''pkgB'' = None \<and>
   ''b/package.json'' \<notin> fst ` set (runLernaVersion inc_patch_plain ex_rp ex_siblings) \<and>
   ''pkgB'' \<notin> (name \<circ> snd) ` set (runLernaVersion inc_patch_plain ex_rp ex_siblings) \<and>
   (\<exists>q. map_of (runLernaVersion inc_patch_plain ex_rp ex_siblings) ''c/package.json'' = Some q \<and>
        name q = ''pkgC'' \<and> version q = ''3.3.4'' \<and>
        map_of (dependencies q) ''pkgA'' = Some ''^1.1.2'')"
proof -
  let ?r = "\<lparr> r_name = ''pkgA'', r_type = ''range'' \<rparr>"
  have wf: "wf_graph ex_siblings"
    by code_simp
  have candidate: "ex_invalidB \<in> set (updatesWithDependents ex_rp ex_siblings)"
    by code_simp
  have not_updated: "\<not> has ex_rp (node_location ex_invalidB)"
    by code_simp
  have invalid: "inc_patch_plain (node_version ex_invalidB) = None"
    by code_simp
  have c: "ex_validC \<in> set (updatesWithDependents ex_rp ex_siblings)"
    by code_simp
  have cv: "new_version inc_patch_plain ex_rp ex_validC = Some ''3.3.4''"
    by code_simp
  have e: "(''pkgA'', ?r) \<in> set (localDependencies ex_validC)"
    by (simp add: ex_validC_def ex_node_def)
  have range: "r_type ?r = ''range''"
    by simp
  have av: "map_of (updatesVersions inc_patch_plain ex_rp ex_siblings) ''pkgA'' = Some ''1.1.2''"
    by code_simp
  have ne: "''1.1.2'' \<noteq> []"
    by simp
  have names: "node_name ex_invalidB = ''pkgB''" "node_location ex_invalidB = ''b/package.json''"
      "node_name ex_validC = ''pkgC''" "node_location ex_validC = ''c/package.json''"
    by (simp_all add: node_name_def node_location_def ex_node_def ex_invalidB_def ex_validC_def
          ex_pkg_def)
  note main = invalid_version_isolated [where inc = inc_patch_plain, OF wf candidate not_updated invalid]
  from main have dropped:
    "node_name ex_invalidB \<in> set (invalidVersions inc_patch_plain ex_rp ex_siblings)"
    "map_of (updatesVersions inc_patch_plain ex_rp ex_siblings) (node_name ex_invalidB) = None"
    "node_location ex_invalidB \<notin> fst ` set (runLernaVersion inc_patch_plain ex_rp ex_siblings)"
    "node_name ex_invalidB \<notin> (name \<circ> snd) ` set (runLernaVersion inc_patch_plain ex_rp ex_siblings)"
    by blast+
  from main c cv obtain q where q:
    "map_of (runLernaVersion inc_patch_plain ex_rp ex_siblings) (node_location ex_validC) = Some q"
    "name q = node_name ex_validC" "version q = ''3.3.4''"
    and edges: "\<And>d r w. (d, r) \<in> set (localDependencies ex_validC) \<Longrightarrow> r_type r = ''range'' \<Longrightarrow>
       map_of (updatesVersions inc_patch_plain ex_rp ex_siblings) d = Some w \<Longrightarrow> w \<noteq> [] \<Longrightarrow>
       map_of (dependencies q) d = Some (''^'' @ w)"
    by blast
  from edges [OF e range av ne] have "map_of (dependencies q) ''pkgA'' = Some ''^1.1.2''"
    by simp
  with dropped q show ?thesis
    unfolding names by blast
qed

text \<open>
  Claim C8. In a well-formed graph, a local dependency edge whose resolved reference has the
  type \<^verbatim>\<open>directory\<close> is never rewritten, also when its target has a new version in the same
  run: the runner does not hand it to \<^verbatim>\<open>updateLocalDependency\<close>. Only registered ranges are
  rewritten: an edge of type \<^verbatim>\<open>range\<close> whose target has a new version that is not empty
  becomes the caret constraint against that version, and an edge of any other type is left
  as it was.
\<close>

theorem local_edge_rewriting:
  assumes wf: "wf_graph g" and n: "n \<in> set g"
    and edge: "(d, r) \<in> set (localDependencies n)"
    and out: "map_of (runLernaVersion inc rp g) (node_location n) = Some q"
  shows "(r_type r = ''directory'' \<longrightarrow>
            map_of (dependencies q) d = map_of (dependencies (pkg n)) d) \<and>
         (r_type r = ''range'' \<longrightarrow>
            (\<forall>v. map_of (updatesVersions inc rp g) d = Some v \<longrightarrow> v \<noteq> [] \<longrightarrow>
               map_of (dependencies q) d = Some (''^'' @ v))) \<and>
         (r_type r \<noteq> ''range'' \<longrightarrow>
            map_of (dependencies q) d = map_of (dependencies (pkg n)) d)"
proof -
  let ?uv = "updatesVersions inc rp g"
  from out have "(node_location n, q) \<in> set (runLernaVersion inc rp g)"
    by (rule map_of_SomeD)
  with wf obtain m where m: "m \<in> set g" "node_location n = node_location m"
      "q = runner ?uv g (pkg m)"
    by (rule runLernaVersion_entry)
  from wf_graph_same_location [OF wf m(1) n] m(2) have "m = n" by simp
  with m(3) have q: "q = runner ?uv g (pkg n)" by simp
  have directory: "map_of (dependencies q) d = map_of (dependencies (pkg n)) d"
    if "r_type r = ''directory''"
    unfolding q using wf n edge that by (rule runner_edge_directory)
  have range: "map_of (dependencies q) d = Some (''^'' @ v)"
    if "r_type r = ''range''" "map_of ?uv d = Some v" "v \<noteq> []" for v
    unfolding q using wf n edge that(2,3,1) by (rule runner_edge_range)
  have other: "map_of (dependencies q) d = map_of (dependencies (pkg n)) d"
    if "r_type r \<noteq> ''range''"
    unfolding q using wf n edge that by (rule runner_edge_not_range)
  from directory range other show ?thesis
    by blast
qed

theorem local_edge_rewriting_witness:
  "map_of (updatesVersions inc_patch_plain ex_rp ex_links) ''pkgA'' = Some ''1.1.2'' \<and>
   map_of (runLernaVersion inc_patch_plain ex_rp ex_links) ''b/package.json'' =
     Some (ex_pkg ''pkgB'' ''2.2.3'' ''b'' [(''pkgA'', ''file:../a'')]) \<and>
   map_of (dependencies (ex_pkg ''pkgB'' ''2.2.3'' ''b'' [(''pkgA'', ''file:../a'')])) ''pkgA'' =
     map_of (dependencies (pkg ex_linkedB)) ''pkgA'' \<and>
   map_of (runLernaVersion inc_patch_plain ex_rp ex_links) ''c/package.json'' =
     Some (ex_pkg ''pkgC'' ''3.3.4'' ''c'' [(''pkgA'', ''^1.1.2'')]) \<and>
   map_of (dependencies (ex_pkg ''pkgC'' ''3.3.4'' ''c'' [(''pkgA'', ''^1.1.2'')])) ''pkgA'' =
     Some ''^1.1.2''"
proof -
  let ?link = "\<lparr> r_name = ''pkgA'', r_type = ''directory'' \<rparr>"
  let ?range = "\<lparr> r_name = ''pkgA'', r_type = ''range'' \<rparr>"
  let ?qb = "ex_pkg ''pkgB'' ''2.2.3'' ''b'' [(''pkgA'', ''file:../a'')]"
  let ?qc = "ex_pkg ''pkgC'' ''3.3.4'' ''c'' [(''pkgA'', ''^1.1.2'')]"
  have wf: "wf_graph ex_links"
    by code_simp
  have nb: "ex_linkedB \<in> set ex_links" and nc: "ex_validC \<in> set ex_links"
    by (simp_all add: ex_links_def)
  have eb: "(''pkgA'', ?link) \<in> set (localDependencies ex_linkedB)"
    by (simp add: ex_linkedB_def ex_node_def)
  have ec: "(''pkgA'', ?range) \<in> set (localDependencies ex_validC)"
    by (simp add: ex_validC_def ex_node_def)
  have ob: "map_of (runLernaVersion inc_patch_plain ex_rp ex_links) (node_location ex_linkedB) = Some ?qb"
    by code_simp
  have oc: "map_of (runLernaVersion inc_patch_plain ex_rp ex_links) (node_location ex_validC) = Some ?qc"
    by code_simp
  have l: "node_location ex_linkedB = ''b/package.json''" "node_location ex_validC = ''c/package.json''"
    by (simp_all add: node_location_def ex_node_def ex_linkedB_def ex_validC_def ex_pkg_def)
  have changed: "map_of (updatesVersions inc_patch_plain ex_rp ex_links) ''pkgA'' = Some ''1.1.2''"
    by code_simp
  from local_edge_rewriting [OF wf nb eb ob]
  have kept: "map_of (dependencies ?qb) ''pkgA'' = map_of (dependencies (pkg ex_linkedB)) ''pkgA''"
    by simp
  from local_edge_rewriting [OF wf nc ec oc] changed
  have rewritten: "map_of (dependencies ?qc) ''pkgA'' = Some ''^1.1.2''"
    by simp
  from changed ob oc kept rewritten show ?thesis
    by (simp only: l simp_thms)
qed

subsection \<open>Merging into the pull request data\<close>

text \<open>
  A package with a pending change of its \<^verbatim>\<open>package.json\<close> leaves the first loop as it
  came: the file data found is the one that is set.
\<close>

lemma updatePkgsWithPRData_first_pending:
  assumes "map_of (changes (prData p)) (path (config p) @ ''/package.json'') = Some fileData"
  shows "hd (fst (updatePkgsWithPRData_first (p # ps) newManifestVersions allUpdated)) = p"
  using assms by (simp add: update_triv split: option.splits prod.splits)

text \<open>
  Claim C3, on the triangle. pkgB has a pending change of its \<^verbatim>\<open>package.json\<close> from its
  releaser. The propagation pass rewrites the dependency of pkgB on pkgA to \<^verbatim>\<open>^1.1.2\<close>, but
  \<^verbatim>\<open>run\<close> leaves the pending content as it was, with \<^verbatim>\<open>^1.1.1\<close>: the existing file data is
  put back and the new content is dropped. pkgC, which had no pending entry, is appended
  with its new version and its rewritten descriptor, and its version is recorded.
\<close>

theorem pending_change_keeps_stale_descriptor:
  "run inc_patch_plain ex_parsed ex_triangle [(''a'', JStr ''1.1.2''), (''b'', JStr ''2.3.0'')]
       [ex_pending ex_pkgA ''a'', ex_pending ex_pkgB2 ''b''] =
     Inr ([(''a'', JStr ''1.1.2''), (''b'', JStr ''2.3.0''), (''c'', JStr ''3.3.4'')],
          [ex_pending ex_pkgA ''a'',
           ex_pending ex_pkgB2 ''b'',
           \<lparr> config = \<lparr> path = ''c'', releaseType = ''node'', packageName = Some ''pkgC'',
                        releaseAs = None, releaseDraft = False \<rparr>,
             prData = \<lparr> prdata_version = ''3.3.4'',
                        changes = [(''c/package.json'',
                          \<lparr> content = Descriptor \<lparr> pj_name = ''pkgC'', pj_version = ''3.3.4'',
                                pj_dependencies = [(''pkgA'', ''^1.1.2''), (''pkgB'', ''^2.3.0'')] \<rparr>,
                            mode = ''100644'' \<rparr>)] \<rparr> \<rparr>]) \<and>
   map_option dependencies
     (map_of (runLernaVersion inc_patch_plain
                [(''a/package.json'', toJSON ex_pkgA), (''b/package.json'', toJSON ex_pkgB2)] ex_triangle)
        ''b/package.json'') = Some [(''pkgA'', ''^1.1.2'')] \<and>
   dependencies ex_pkgB2 = [(''pkgA'', ''^1.1.1'')]"
  by code_simp

end
